theory Spec2Isabelle
  imports Main "HOL-Library.Word"
begin

section \<open>GetOptCpp: the argument parser of getoptc++.hpp\<close>

text \<open>
  A shallow embedding of \<^verbatim>\<open>__impl_GetOpt<int, char, double, std::string>\<close>
  (the alias \<^verbatim>\<open>GetOpt\<close>). Exceptions and undefined behaviour are values of
  the type \<open>error\<close>; the object's fields and the memory they point into form one record
  that every operation takes and returns.
\<close>

subsection \<open>Errors\<close>

datatype error =
    No_argv                   \<comment> \<open>\<^verbatim>\<open>throw no_argv(...)\<close>\<close>
  | Impossible_case_reached   \<comment> \<open>\<^verbatim>\<open>throw impossible_case_reached(...)\<close>\<close>
  | Std_invalid_argument      \<comment> \<open>\<^verbatim>\<open>std::invalid_argument\<close>, from \<^verbatim>\<open>std::stoi\<close> and \<^verbatim>\<open>std::stod\<close>\<close>
  | Std_out_of_range          \<comment> \<open>\<^verbatim>\<open>std::out_of_range\<close>, from them, \<^verbatim>\<open>map::at\<close> and \<^verbatim>\<open>substr\<close>\<close>
  | UB_read_out_of_bounds     \<comment> \<open>a read past the end of an array\<close>
  | UB_buffer_overflow        \<comment> \<open>\<^verbatim>\<open>strcpy\<close> into a buffer that is too small\<close>
  | UB_deref_end              \<comment> \<open>\<^verbatim>\<open>begin()->first\<close> on an empty map, \<^verbatim>\<open>back()\<close> on an empty string\<close>
  | UB_bad_pointer            \<comment> \<open>a pointer that addresses no object\<close>

text \<open>The two exceptions of the conversion functions \<^verbatim>\<open>std::stoi\<close> and \<^verbatim>\<open>std::stod\<close>.\<close>

datatype stox_error = Invalid_argument | Out_of_range

fun rethrow :: "stox_error + 'a \<Rightarrow> error + 'a" where
  "rethrow (Inl Invalid_argument) = Inl Std_invalid_argument"
| "rethrow (Inl Out_of_range) = Inl Std_out_of_range"
| "rethrow (Inr x) = Inr x"

fun bind_err :: "error + 'a \<Rightarrow> ('a \<Rightarrow> error + 'b) \<Rightarrow> error + 'b" where
  "bind_err (Inl e) f = Inl e"
| "bind_err (Inr x) f = f x"

subsection \<open>std::string\<close>

text \<open>
  \<^verbatim>\<open>size_type\<close> is an unsigned 64-bit integer and \<^verbatim>\<open>npos\<close> its largest value, so
  that \<open>npos + 1 = 0\<close>.
\<close>

type_synonym size_type = "64 word"

definition npos :: size_type where
  "npos = - 1"

definition NUL :: char where
  "NUL = CHR 0x00"

definition str_size :: "string \<Rightarrow> size_type" where
  "str_size s = of_nat (length s)"

text \<open>\<^verbatim>\<open>s.find(c)\<close>: the position of the first \<open>c\<close>, or \<open>npos\<close>.\<close>

fun str_find :: "char \<Rightarrow> string \<Rightarrow> size_type" where
  "str_find c [] = npos"
| "str_find c (x # xs) =
     (if x = c then 0
      else (let r = str_find c xs in if r = npos then npos else r + 1))"

text \<open>\<^verbatim>\<open>s.find(needle)\<close> for a string \<open>needle\<close>.\<close>

fun str_find_str :: "string \<Rightarrow> string \<Rightarrow> size_type" where
  "str_find_str needle [] = (if needle = [] then 0 else npos)"
| "str_find_str needle (x # xs) =
     (if take (length needle) (x # xs) = needle then 0
      else (let r = str_find_str needle xs in if r = npos then npos else r + 1))"

text \<open>\<^verbatim>\<open>s.find_last_of(c)\<close> for a one-character set: the position of the last \<open>c\<close>.\<close>

definition str_find_last_of :: "char \<Rightarrow> string \<Rightarrow> size_type" where
  "str_find_last_of c s =
     (let r = str_find c (rev s) in if r = npos then npos else str_size s - 1 - r)"

text \<open>
  \<^verbatim>\<open>s.substr(pos, n)\<close> and the constructor \<^verbatim>\<open>string_t(s, pos, n)\<close>: throws
  \<^verbatim>\<open>std::out_of_range\<close> when \<open>pos > size\<close>, and clips \<open>n\<close> to the rest of the string.
\<close>

definition substr :: "string \<Rightarrow> size_type \<Rightarrow> size_type \<Rightarrow> error + string" where
  "substr s pos n =
     (if length s < unat pos then Inl Std_out_of_range
      else Inr (take (unat n) (drop (unat pos) s)))"

text \<open>\<^verbatim>\<open>s[0]\<close>: at \<open>size()\<close> the operator yields the terminating null character.\<close>

definition str_at0 :: "string \<Rightarrow> char" where
  "str_at0 s = (case s of [] \<Rightarrow> NUL | c # _ \<Rightarrow> c)"

text \<open>\<^verbatim>\<open>__internal::stripQuotes\<close>\<close>

definition stripQuotes :: "string \<Rightarrow> error + string" where
  "stripQuotes s =
     (if (str_find_str [CHR 0x22] s = 0 \<and> str_find_last_of (CHR 0x22) s = str_size s - 1) \<or>
         (str_find_str [CHR 0x27] s = 0 \<and> str_find_last_of (CHR 0x27) s = str_size s - 1)
      then substr s 1 (str_size s - 2)
      else Inr s)"

subsection \<open>std::stoi\<close>

text \<open>
  \<^verbatim>\<open>std::stoi(str)\<close> in base 10: leading white space is skipped, an optional sign
  and the longest run of decimal digits are read, what follows is ignored. No digit:
  \<^verbatim>\<open>std::invalid_argument\<close>; a value outside the 32-bit \<^verbatim>\<open>int\<close>:
  \<^verbatim>\<open>std::out_of_range\<close>.
\<close>

definition isspace :: "char \<Rightarrow> bool" where
  "isspace c = (c \<in> set [CHR 0x20, CHR 0x09, CHR 0x0A, CHR 0x0B, CHR 0x0C, CHR 0x0D])"

definition isdigit :: "char \<Rightarrow> bool" where
  "isdigit c = (48 \<le> (of_char c :: nat) \<and> (of_char c :: nat) \<le> 57)"

fun digits_value :: "int \<Rightarrow> string \<Rightarrow> int" where
  "digits_value acc [] = acc"
| "digits_value acc (c # cs) = digits_value (10 * acc + (int (of_char c) - 48)) cs"

definition stoi :: "string \<Rightarrow> stox_error + int" where
  "stoi str =
     (let s1 = dropWhile isspace str;
          neg = (s1 \<noteq> [] \<and> hd s1 = CHR ''-'');
          s2 = (if s1 \<noteq> [] \<and> (hd s1 = CHR ''-'' \<or> hd s1 = CHR ''+'') then tl s1 else s1);
          ds = takeWhile isdigit s2
      in if ds = [] then Inl Invalid_argument
         else (let v = (if neg then - digits_value 0 ds else digits_value 0 ds)
               in if v < - (2 ^ 31) \<or> 2 ^ 31 - 1 < v then Inl Out_of_range
                  else Inr v))"

subsection \<open>std::map\<close>

text \<open>
  A \<^verbatim>\<open>std::map<std::string, V>\<close> is an association list with at most one entry per key.
  \<^verbatim>\<open>insert\<close> leaves the map as it is when the key is present. \<^verbatim>\<open>begin()\<close> is the
  entry with the least key; \<^verbatim>\<open>std::string\<close> compares byte-wise.
\<close>

fun string_less :: "string \<Rightarrow> string \<Rightarrow> bool" where
  "string_less [] [] = False"
| "string_less [] (b # bs) = True"
| "string_less (a # as) [] = False"
| "string_less (a # as) (b # bs) =
     (if (of_char a :: nat) < of_char b then True
      else if (of_char b :: nat) < of_char a then False
      else string_less as bs)"

definition map_find :: "string \<Rightarrow> (string \<times> 'v) list \<Rightarrow> 'v option" where
  "map_find k m = map_of m k"

definition map_insert :: "string \<Rightarrow> 'v \<Rightarrow> (string \<times> 'v) list \<Rightarrow> (string \<times> 'v) list" where
  "map_insert k v m = (if map_find k m = None then m @ [(k, v)] else m)"

definition map_at :: "string \<Rightarrow> (string \<times> 'v) list \<Rightarrow> error + 'v" where
  "map_at k m = (case map_find k m of None \<Rightarrow> Inl Std_out_of_range | Some v \<Rightarrow> Inr v)"

fun least_entry :: "(string \<times> 'v) \<Rightarrow> (string \<times> 'v) list \<Rightarrow> (string \<times> 'v)" where
  "least_entry e [] = e"
| "least_entry e (x # xs) = least_entry (if string_less (fst x) (fst e) then x else e) xs"

definition map_begin :: "(string \<times> 'v) list \<Rightarrow> error + (string \<times> 'v)" where
  "map_begin m = (case m of [] \<Rightarrow> Inl UB_deref_end | e # es \<Rightarrow> Inr (least_entry e es))"

subsection \<open>The object and the memory it points into\<close>

datatype BEHAVIOUR = STRICT | AS_IS

text \<open>The private enum \<^verbatim>\<open>TYPE { BOOL, FLOAT, INT, STR }\<close>.\<close>

datatype flag_TYPE = BOOL_T | FLOAT_T | INT_T | STR_T

text \<open>
  Pointers are addresses, natural numbers indexing one store per kind of object:
  \<^item> \<open>arrays\<close>: the \<^verbatim>\<open>char**\<close> blocks (the caller's \<^verbatim>\<open>argv\<close> and every
    \<^verbatim>\<open>newFlags\<close>), each a list of \<^verbatim>\<open>char*\<close>;
  \<^item> \<open>mem\<close>: the character buffers, byte by byte, terminating null included;
  \<^item> \<open>bool_cells\<close>, \<open>float_cells\<close>, \<open>int_cells\<close>, \<open>str_cells\<close>: the objects
    created by \<^verbatim>\<open>new TYPE_CPP(default_value)\<close> and handed to the caller.
  The remaining fields are those of the class. \<open>argv = None\<close> is \<^verbatim>\<open>nullptr\<close>.
  \<open>argc\<close> and the loop variable are natural numbers: they start at 0 or 1 and only grow.
  The floating-point type is the parameter \<open>'f\<close>. Releasing memory
  (\<^verbatim>\<open>delete[]\<close>) is not modelled: a released address is never handed out again.
\<close>

record 'f GetOpt =
  argc :: nat
  argv :: "nat option"
  from_sys :: bool
  allocs :: "nat list"
  options :: "string list"
  main_lookup :: "(string \<times> flag_TYPE) list"
  bool_lookup :: "(string \<times> nat) list"
  float_lookup :: "(string \<times> nat) list"
  int_lookup :: "(string \<times> nat) list"
  str_lookup :: "(string \<times> nat) list"
  arrays :: "nat list list"
  mem :: "string list"
  bool_cells :: "bool list"
  float_cells :: "'f list"
  int_cells :: "int list"
  str_cells :: "string list"

text \<open>The default constructor, on an empty memory.\<close>

definition new_GetOpt :: "'f GetOpt" where
  "new_GetOpt =
     \<lparr> argc = 0, argv = None, from_sys = True, allocs = [], options = [],
       main_lookup = [], bool_lookup = [], float_lookup = [], int_lookup = [],
       str_lookup = [], arrays = [], mem = [], bool_cells = [], float_cells = [],
       int_cells = [], str_cells = [] \<rparr>"

definition initialize :: "nat \<Rightarrow> nat option \<Rightarrow> bool \<Rightarrow> 'f GetOpt \<Rightarrow> 'f GetOpt" where
  "initialize argc' argv' isFromSystem s =
     s\<lparr>argc := argc', argv := argv', from_sys := isFromSystem\<rparr>"

definition getOptions :: "'f GetOpt \<Rightarrow> string list" where
  "getOptions s = options s"

text \<open>
  The caller's side of \<^verbatim>\<open>main(argc, argv)\<close>: one buffer per token, an array of
  pointers to them, and the call of \<open>initialize\<close> with the array's address.
\<close>

definition caller_argv :: "string list \<Rightarrow> bool \<Rightarrow> 'f GetOpt \<Rightarrow> 'f GetOpt" where
  "caller_argv tokens isFromSystem s =
     initialize (length tokens) (Some (length (arrays s))) isFromSystem
       (s\<lparr>arrays := arrays s @ [[length (mem s) ..< length (mem s) + length tokens]],
          mem := mem s @ map (\<lambda>t. t @ [NUL]) tokens\<rparr>)"

subsection \<open>Reading and writing memory\<close>

text \<open>\<^verbatim>\<open>string_t(p)\<close> for a \<^verbatim>\<open>char*\<close>: the bytes before the first null.\<close>

definition c_string :: "'f GetOpt \<Rightarrow> nat \<Rightarrow> error + string" where
  "c_string s p =
     (if p < length (mem s) then
        (if NUL \<in> set (mem s ! p) then Inr (takeWhile (\<lambda>c. c \<noteq> NUL) (mem s ! p))
         else Inl UB_read_out_of_bounds)
      else Inl UB_bad_pointer)"

text \<open>\<^verbatim>\<open>_argv[k]\<close>, the pointer.\<close>

definition argv_ptr :: "'f GetOpt \<Rightarrow> nat \<Rightarrow> error + nat" where
  "argv_ptr s k =
     (case argv s of
        None \<Rightarrow> Inl UB_bad_pointer
      | Some a \<Rightarrow>
          (if a < length (arrays s) then
             (if k < length (arrays s ! a) then Inr (arrays s ! a ! k)
              else Inl UB_read_out_of_bounds)
           else Inl UB_bad_pointer))"

text \<open>\<^verbatim>\<open>string_t(_argv[k])\<close>\<close>

definition argv_string :: "'f GetOpt \<Rightarrow> nat \<Rightarrow> error + string" where
  "argv_string s k = bind_err (argv_ptr s k) (c_string s)"

text \<open>
  \<^verbatim>\<open>strcpy(dst, src)\<close> writes \<open>src\<close> and a null over the first bytes of the buffer and
  leaves the others.
\<close>

definition strcpy :: "string list \<Rightarrow> nat \<Rightarrow> string \<Rightarrow> error + string list" where
  "strcpy m dst src =
     (if dst < length m then
        (if length src + 1 \<le> length (m ! dst)
         then Inr (m[dst := src @ [NUL] @ drop (length src + 1) (m ! dst)])
         else Inl UB_buffer_overflow)
      else Inl UB_bad_pointer)"

definition load_bool :: "nat \<Rightarrow> 'f GetOpt \<Rightarrow> error + bool" where
  "load_bool p s = (if p < length (bool_cells s) then Inr (bool_cells s ! p) else Inl UB_bad_pointer)"

definition store_bool :: "nat \<Rightarrow> bool \<Rightarrow> 'f GetOpt \<Rightarrow> error + 'f GetOpt" where
  "store_bool p v s =
     (if p < length (bool_cells s) then Inr (s\<lparr>bool_cells := (bool_cells s)[p := v]\<rparr>)
      else Inl UB_bad_pointer)"

definition store_float :: "nat \<Rightarrow> 'f \<Rightarrow> 'f GetOpt \<Rightarrow> error + 'f GetOpt" where
  "store_float p v s =
     (if p < length (float_cells s) then Inr (s\<lparr>float_cells := (float_cells s)[p := v]\<rparr>)
      else Inl UB_bad_pointer)"

definition store_int :: "nat \<Rightarrow> int \<Rightarrow> 'f GetOpt \<Rightarrow> error + 'f GetOpt" where
  "store_int p v s =
     (if p < length (int_cells s) then Inr (s\<lparr>int_cells := (int_cells s)[p := v]\<rparr>)
      else Inl UB_bad_pointer)"

definition store_str :: "nat \<Rightarrow> string \<Rightarrow> 'f GetOpt \<Rightarrow> error + 'f GetOpt" where
  "store_str p v s =
     (if p < length (str_cells s) then Inr (s\<lparr>str_cells := (str_cells s)[p := v]\<rparr>)
      else Inl UB_bad_pointer)"

subsection \<open>Registration: the macro SETUP_FLAG\<close>

text \<open>
  The loop \<^verbatim>\<open>while (!std::getline(ss, flag, ',').eof())\<close> and the insertion after it:
  every piece between commas is a flag, the last one (which may be empty) included.
  \<open>getline_flags flag cs\<close> has read \<open>flag\<close> so far and \<open>cs\<close> is left in the stream.
\<close>

fun getline_flags :: "string \<Rightarrow> string \<Rightarrow> string list" where
  "getline_flags flag [] = [flag]"
| "getline_flags flag (c # cs) =
     (if c = CHR '','' then flag # getline_flags [] cs else getline_flags (flag @ [c]) cs)"

definition flagBoolean :: "string \<Rightarrow> bool \<Rightarrow> 'f GetOpt \<Rightarrow> nat \<times> 'f GetOpt" where
  "flagBoolean flagName default_value s =
     (let returnVal = length (bool_cells s)
      in (returnVal,
          fold (\<lambda>flag s. s\<lparr>main_lookup := map_insert flag BOOL_T (main_lookup s),
                            bool_lookup := map_insert flag returnVal (bool_lookup s)\<rparr>)
            (getline_flags [] flagName)
            (s\<lparr>bool_cells := bool_cells s @ [default_value]\<rparr>)))"

definition flagFloating :: "string \<Rightarrow> 'f \<Rightarrow> 'f GetOpt \<Rightarrow> nat \<times> 'f GetOpt" where
  "flagFloating flagName default_value s =
     (let returnVal = length (float_cells s)
      in (returnVal,
          fold (\<lambda>flag s. s\<lparr>main_lookup := map_insert flag FLOAT_T (main_lookup s),
                            float_lookup := map_insert flag returnVal (float_lookup s)\<rparr>)
            (getline_flags [] flagName)
            (s\<lparr>float_cells := float_cells s @ [default_value]\<rparr>)))"

definition flagInt :: "string \<Rightarrow> int \<Rightarrow> 'f GetOpt \<Rightarrow> nat \<times> 'f GetOpt" where
  "flagInt flagName default_value s =
     (let returnVal = length (int_cells s)
      in (returnVal,
          fold (\<lambda>flag s. s\<lparr>main_lookup := map_insert flag INT_T (main_lookup s),
                            int_lookup := map_insert flag returnVal (int_lookup s)\<rparr>)
            (getline_flags [] flagName)
            (s\<lparr>int_cells := int_cells s @ [default_value]\<rparr>)))"

definition flagString :: "string \<Rightarrow> string \<Rightarrow> 'f GetOpt \<Rightarrow> nat \<times> 'f GetOpt" where
  "flagString flagName default_value s =
     (let returnVal = length (str_cells s)
      in (returnVal,
          fold (\<lambda>flag s. s\<lparr>main_lookup := map_insert flag STR_T (main_lookup s),
                            str_lookup := map_insert flag returnVal (str_lookup s)\<rparr>)
            (getline_flags [] flagName)
            (s\<lparr>str_cells := str_cells s @ [default_value]\<rparr>)))"

subsection \<open>Tokens that are not in the lookup table\<close>

text \<open>
  The loop that fills the tail of \<^verbatim>\<open>newFlags\<close>: for each interior character a fresh
  three-byte buffer holding \<^verbatim>\<open>"-"\<close> and the character, recorded in \<^verbatim>\<open>allocs\<close>.
\<close>

fun new_flags :: "string \<Rightarrow> nat list \<times> nat list \<times> string list \<Rightarrow> nat list \<times> nat list \<times> string list" where
  "new_flags [] st = st"
| "new_flags (c # cs) (newFlags, allocs', m) =
     new_flags cs (newFlags @ [length m], allocs' @ [length m], m @ [[CHR ''-'', c, NUL]])"

text \<open>\<^verbatim>\<open>std::memcpy(newFlags, _argv, _argc * sizeof(char*))\<close>: the pointers, not the strings.\<close>

definition memcpy_argv :: "'f GetOpt \<Rightarrow> error + nat list" where
  "memcpy_argv s =
     (case argv s of
        None \<Rightarrow> Inl UB_bad_pointer
      | Some a \<Rightarrow>
          (if a < length (arrays s) then
             (if argc s \<le> length (arrays s ! a) then Inr (take (argc s) (arrays s ! a))
              else Inl UB_read_out_of_bounds)
           else Inl UB_bad_pointer))"

text \<open>The combination-flag block (lines 212 to 227, and 351 to 365).\<close>

definition expand_cluster :: "'f GetOpt \<Rightarrow> nat \<Rightarrow> string \<Rightarrow> error + 'f GetOpt" where
  "expand_cluster s i flag =
     (if flag = [] then Inl UB_deref_end
      else
        (let lastFlag = last flag in
         bind_err (substr flag 1 (str_size flag - 2)) (\<lambda>interior.
         bind_err (memcpy_argv s) (\<lambda>copied.
           (case new_flags interior (copied, allocs s, mem s) of
              (newFlags, allocs', m) \<Rightarrow>
                (if i < length newFlags then
                   bind_err (strcpy m (newFlags ! i) [CHR ''-'', lastFlag]) (\<lambda>m'.
                     Inr (s\<lparr>allocs := allocs', mem := m',
                            arrays := arrays s @ [newFlags],
                            argc := argc s + length interior,
                            argv := Some (length (arrays s))\<rparr>))
                 else Inl UB_read_out_of_bounds))))))"

text \<open>
  The branch \<^verbatim>\<open>it == main_lookup.end()\<close>, the same text in both dialects. The result
  of one iteration is the new state, the new \<open>i\<close> and the new \<open>invalid_flags\<close>.
\<close>

definition flag_not_found ::
  "'f GetOpt \<Rightarrow> nat \<Rightarrow> string list \<Rightarrow> string \<Rightarrow> error + ('f GetOpt \<times> nat \<times> string list)" where
  "flag_not_found s i invalid_flags flag =
     bind_err (map_begin (main_lookup s)) (\<lambda>first_entry.
       if str_at0 (fst first_entry) = str_at0 flag then
         bind_err (substr flag 0 2) (\<lambda>two.
           if map_find two (main_lookup s) = None
           then Inr (s, i + 1, invalid_flags @ [flag])
           else bind_err (expand_cluster s i flag) (\<lambda>s'. Inr (s', i, invalid_flags)))
       else Inr (s\<lparr>options := options s @ [flag]\<rparr>, i + 1, invalid_flags))"

text \<open>
  The tests of lines 206 to 210 (and 345 to 349) under which a token reaches the
  combination-flag block: its flag-only part is not in the lookup table, its first
  character is that of the table's first entry, and its first two characters are in the
  table.
\<close>

definition cluster_branch :: "'f GetOpt \<Rightarrow> string \<Rightarrow> bool" where
  "cluster_branch s flag =
     (case substr flag 0 (str_find (CHR ''='') flag) of
        Inl e \<Rightarrow> False
      | Inr flag_only \<Rightarrow>
          map_find flag_only (main_lookup s) = None \<and>
          (case map_begin (main_lookup s) of
             Inl e \<Rightarrow> False
           | Inr first_entry \<Rightarrow>
               str_at0 (fst first_entry) = str_at0 flag \<and>
               (case substr flag 0 2 of
                  Inl e \<Rightarrow> False
                | Inr two \<Rightarrow> map_find two (main_lookup s) \<noteq> None)))"

subsection \<open>Flags of the lookup table\<close>

text \<open>
  The test and assignment of lines 246 and 378, on the token \<^verbatim>\<open>_argv[index + 1]\<close>:
  \<^verbatim>\<open>A || (*data = (B ? true : *data))\<close>, then \<^verbatim>\<open>i += 2\<close>, else \<^verbatim>\<open>*data = true; i++\<close>.
\<close>

definition bool_next_token ::
  "'f GetOpt \<Rightarrow> nat \<Rightarrow> string list \<Rightarrow> nat \<Rightarrow> size_type \<Rightarrow> error + ('f GetOpt \<times> nat \<times> string list)" where
  "bool_next_token s i invalid_flags data index =
     bind_err (argv_string s (unat (index + 1))) (\<lambda>tok.
     bind_err (stripQuotes tok) (\<lambda>v.
       if v = ''0'' then Inr (s, i + 2, invalid_flags)
       else
         bind_err (argv_string s (unat (index + 1))) (\<lambda>tok'.
         bind_err (stripQuotes tok') (\<lambda>v'.
         bind_err (load_bool data s) (\<lambda>old.
         bind_err (store_bool data (if v' = ''1'' then True else old) s) (\<lambda>s'.
           if (if v' = ''1'' then True else old) then Inr (s', i + 2, invalid_flags)
           else bind_err (store_bool data True s') (\<lambda>s''. Inr (s'', i + 1, invalid_flags))))))))"

text \<open>\<^verbatim>\<open>*data = (stripQuotes(string_t(flag, index + 1)) == "0") ? false : true\<close>\<close>

definition bool_equals_value ::
  "'f GetOpt \<Rightarrow> nat \<Rightarrow> string list \<Rightarrow> string \<Rightarrow> nat \<Rightarrow> size_type \<Rightarrow> error + ('f GetOpt \<times> nat \<times> string list)" where
  "bool_equals_value s i invalid_flags flag data index =
     bind_err (substr flag (index + 1) npos) (\<lambda>suffix.
     bind_err (stripQuotes suffix) (\<lambda>v.
     bind_err (store_bool data (if v = ''0'' then False else True) s) (\<lambda>s'.
       Inr (s', i + 1, invalid_flags))))"

text \<open>\<^verbatim>\<open>case BOOL\<close> of \<^verbatim>\<open>__internal_readArgs_STRICT\<close>: \<open>index\<close> is still 0 in the short form.\<close>

definition bool_STRICT ::
  "'f GetOpt \<Rightarrow> nat \<Rightarrow> string list \<Rightarrow> string \<Rightarrow> string \<Rightarrow> error + ('f GetOpt \<times> nat \<times> string list)" where
  "bool_STRICT s i invalid_flags flag flag_only =
     bind_err (map_at flag_only (bool_lookup s)) (\<lambda>data.
       (let index = (0 :: size_type) in
        if str_find_str ''--'' flag = 0 then
          (let index = str_find (CHR ''='') flag in
           if index = npos
           then bind_err (store_bool data True s) (\<lambda>s'. Inr (s', i + 1, invalid_flags))
           else bool_equals_value s i invalid_flags flag data index)
        else bool_next_token s i invalid_flags data index))"

text \<open>\<^verbatim>\<open>case BOOL\<close> of \<^verbatim>\<open>__internal_readArgs_AS_IS\<close>: \<open>index\<close> is \<open>npos\<close> without an equals sign.\<close>

definition bool_AS_IS ::
  "'f GetOpt \<Rightarrow> nat \<Rightarrow> string list \<Rightarrow> string \<Rightarrow> string \<Rightarrow> error + ('f GetOpt \<times> nat \<times> string list)" where
  "bool_AS_IS s i invalid_flags flag flag_only =
     bind_err (map_at flag_only (bool_lookup s)) (\<lambda>data.
       (let index = str_find (CHR ''='') flag in
        if index = npos then bool_next_token s i invalid_flags data index
        else bool_equals_value s i invalid_flags flag data index))"

text \<open>
  \<^verbatim>\<open>*data = CONVERSION_FUNCTION(stripQuotes(...))\<close> on the text after the equals sign,
  and on the next token.
\<close>

definition value_after_equals ::
  "(string \<Rightarrow> stox_error + 'v) \<Rightarrow> (nat \<Rightarrow> 'v \<Rightarrow> 'f GetOpt \<Rightarrow> error + 'f GetOpt) \<Rightarrow>
   'f GetOpt \<Rightarrow> nat \<Rightarrow> string list \<Rightarrow> string \<Rightarrow> nat \<Rightarrow> size_type \<Rightarrow>
   error + ('f GetOpt \<times> nat \<times> string list)" where
  "value_after_equals conv store s i invalid_flags flag data index =
     bind_err (substr flag (index + 1) npos) (\<lambda>suffix.
     bind_err (stripQuotes suffix) (\<lambda>text.
     bind_err (rethrow (conv text)) (\<lambda>v.
     bind_err (store data v s) (\<lambda>s'. Inr (s', i + 1, invalid_flags)))))"

definition value_next_token ::
  "(string \<Rightarrow> stox_error + 'v) \<Rightarrow> (nat \<Rightarrow> 'v \<Rightarrow> 'f GetOpt \<Rightarrow> error + 'f GetOpt) \<Rightarrow>
   'f GetOpt \<Rightarrow> nat \<Rightarrow> string list \<Rightarrow> string \<Rightarrow> nat \<Rightarrow>
   error + ('f GetOpt \<times> nat \<times> string list)" where
  "value_next_token conv store s i invalid_flags flag data =
     (if argc s \<le> i + 1 then Inr (s, i + 1, invalid_flags @ [flag])
      else
        bind_err (argv_string s (i + 1)) (\<lambda>tok.
        bind_err (stripQuotes tok) (\<lambda>text.
        bind_err (rethrow (conv text)) (\<lambda>v.
        bind_err (store data v s) (\<lambda>s'. Inr (s', i + 2, invalid_flags))))))"

text \<open>
  The macro \<^verbatim>\<open>HANDLE_NUMERIC_FLAGS\<close>, over the type's lookup table, conversion function
  and cells. \<^verbatim>\<open>case STR\<close> has the same text with no conversion.
\<close>

definition HANDLE_NUMERIC_FLAGS ::
  "(string \<times> nat) list \<Rightarrow> (string \<Rightarrow> stox_error + 'v) \<Rightarrow>
   (nat \<Rightarrow> 'v \<Rightarrow> 'f GetOpt \<Rightarrow> error + 'f GetOpt) \<Rightarrow>
   'f GetOpt \<Rightarrow> nat \<Rightarrow> string list \<Rightarrow> string \<Rightarrow> string \<Rightarrow>
   error + ('f GetOpt \<times> nat \<times> string list)" where
  "HANDLE_NUMERIC_FLAGS lookup conv store s i invalid_flags flag flag_only =
     bind_err (map_at flag_only lookup) (\<lambda>data.
       if str_find_str ''--'' flag = 0 then
         (let index = str_find (CHR ''='') flag in
          if index \<noteq> npos
          then value_after_equals conv store s i invalid_flags flag data index
          else Inr (s, i + 1, invalid_flags @ [flag]))
       else value_next_token conv store s i invalid_flags flag data)"

text \<open>The macro \<^verbatim>\<open>HANDLE_NUMERIC_FLAGS_AS_IS\<close>, and \<^verbatim>\<open>case STR\<close> of the AS_IS dialect.\<close>

definition HANDLE_NUMERIC_FLAGS_AS_IS ::
  "(string \<times> nat) list \<Rightarrow> (string \<Rightarrow> stox_error + 'v) \<Rightarrow>
   (nat \<Rightarrow> 'v \<Rightarrow> 'f GetOpt \<Rightarrow> error + 'f GetOpt) \<Rightarrow>
   'f GetOpt \<Rightarrow> nat \<Rightarrow> string list \<Rightarrow> string \<Rightarrow> string \<Rightarrow>
   error + ('f GetOpt \<times> nat \<times> string list)" where
  "HANDLE_NUMERIC_FLAGS_AS_IS lookup conv store s i invalid_flags flag flag_only =
     bind_err (map_at flag_only lookup) (\<lambda>data.
       (let index = str_find (CHR ''='') flag in
        if index \<noteq> npos
        then value_after_equals conv store s i invalid_flags flag data index
        else value_next_token conv store s i invalid_flags flag data))"

subsection \<open>One iteration of the loop\<close>

text \<open>
  \<open>stod\<close> is \<^verbatim>\<open>std::stod\<close>, a parameter; it returns a value or one of its two exceptions. The \<^verbatim>\<open>default\<close> label of the switch has no
  counterpart: \<open>flag_TYPE\<close> has four values.
\<close>

definition step_STRICT ::
  "(string \<Rightarrow> stox_error + 'f) \<Rightarrow> 'f GetOpt \<Rightarrow> nat \<Rightarrow> string list \<Rightarrow>
   error + ('f GetOpt \<times> nat \<times> string list)" where
  "step_STRICT stod s i invalid_flags =
     bind_err (argv_string s i) (\<lambda>flag.
     bind_err (substr flag 0 (str_find (CHR ''='') flag)) (\<lambda>flag_only.
       (case map_find flag_only (main_lookup s) of
          None \<Rightarrow> flag_not_found s i invalid_flags flag
        | Some BOOL_T \<Rightarrow> bool_STRICT s i invalid_flags flag flag_only
        | Some FLOAT_T \<Rightarrow>
            HANDLE_NUMERIC_FLAGS (float_lookup s) stod store_float s i invalid_flags flag flag_only
        | Some INT_T \<Rightarrow>
            HANDLE_NUMERIC_FLAGS (int_lookup s) stoi store_int s i invalid_flags flag flag_only
        | Some STR_T \<Rightarrow>
            HANDLE_NUMERIC_FLAGS (str_lookup s) Inr store_str s i invalid_flags flag flag_only)))"

definition step_AS_IS ::
  "(string \<Rightarrow> stox_error + 'f) \<Rightarrow> 'f GetOpt \<Rightarrow> nat \<Rightarrow> string list \<Rightarrow>
   error + ('f GetOpt \<times> nat \<times> string list)" where
  "step_AS_IS stod s i invalid_flags =
     bind_err (argv_string s i) (\<lambda>flag.
     bind_err (substr flag 0 (str_find (CHR ''='') flag)) (\<lambda>flag_only.
       (case map_find flag_only (main_lookup s) of
          None \<Rightarrow> flag_not_found s i invalid_flags flag
        | Some BOOL_T \<Rightarrow> bool_AS_IS s i invalid_flags flag flag_only
        | Some FLOAT_T \<Rightarrow>
            HANDLE_NUMERIC_FLAGS_AS_IS (float_lookup s) stod store_float s i invalid_flags flag flag_only
        | Some INT_T \<Rightarrow>
            HANDLE_NUMERIC_FLAGS_AS_IS (int_lookup s) stoi store_int s i invalid_flags flag flag_only
        | Some STR_T \<Rightarrow>
            HANDLE_NUMERIC_FLAGS_AS_IS (str_lookup s) Inr store_str s i invalid_flags flag flag_only)))"

subsection \<open>The loop and readArgs\<close>

text \<open>
  \<^verbatim>\<open>while (i < _argc)\<close>. The loop need not end (a cluster whose last character is
  \<^verbatim>\<open>=\<close> can be expanded again and again), so it runs on fuel: \<open>None\<close> is a loop that
  was still running when the fuel was used up. An exception leaves through the loop with
  the state of the iteration that threw.
\<close>

fun while_loop ::
  "('f GetOpt \<Rightarrow> nat \<Rightarrow> string list \<Rightarrow> error + ('f GetOpt \<times> nat \<times> string list)) \<Rightarrow>
   nat \<Rightarrow> 'f GetOpt \<Rightarrow> nat \<Rightarrow> string list \<Rightarrow> ((error + string list) \<times> 'f GetOpt) option" where
  "while_loop step 0 s i invalid_flags =
     (if i < argc s then None else Some (Inr invalid_flags, s))"
| "while_loop step (Suc fuel) s i invalid_flags =
     (if i < argc s then
        (case step s i invalid_flags of
           Inl e \<Rightarrow> Some (Inl e, s)
         | Inr (s', i', invalid_flags') \<Rightarrow> while_loop step fuel s' i' invalid_flags')
      else Some (Inr invalid_flags, s))"

text \<open>
  What follows the loop: \<^verbatim>\<open>_argv\<close> is set back to \<^verbatim>\<open>_argv_backup\<close> when it differs,
  and \<^verbatim>\<open>allocs\<close> is cleared. \<^verbatim>\<open>_argc\<close> keeps its value.
\<close>

definition internal_readArgs ::
  "('f GetOpt \<Rightarrow> nat \<Rightarrow> string list \<Rightarrow> error + ('f GetOpt \<times> nat \<times> string list)) \<Rightarrow>
   nat \<Rightarrow> 'f GetOpt \<Rightarrow> ((error + string list) \<times> 'f GetOpt) option" where
  "internal_readArgs step fuel s =
     (if argv s = None then Some (Inl No_argv, s)
      else
        (let argv_backup = argv s;
             i = (if from_sys s then 1 else 0)
         in (case while_loop step fuel s i [] of
               None \<Rightarrow> None
             | Some (Inl e, s') \<Rightarrow> Some (Inl e, s')
             | Some (Inr invalid_flags, s') \<Rightarrow>
                 Some (Inr invalid_flags,
                       (if argv s' \<noteq> argv_backup then s'\<lparr>argv := argv_backup\<rparr> else s')
                         \<lparr>allocs := []\<rparr>))))"

definition internal_readArgs_STRICT ::
  "(string \<Rightarrow> stox_error + 'f) \<Rightarrow> nat \<Rightarrow> 'f GetOpt \<Rightarrow> ((error + string list) \<times> 'f GetOpt) option" where
  "internal_readArgs_STRICT stod fuel s = internal_readArgs (step_STRICT stod) fuel s"

definition internal_readArgs_AS_IS ::
  "(string \<Rightarrow> stox_error + 'f) \<Rightarrow> nat \<Rightarrow> 'f GetOpt \<Rightarrow> ((error + string list) \<times> 'f GetOpt) option" where
  "internal_readArgs_AS_IS stod fuel s = internal_readArgs (step_AS_IS stod) fuel s"

definition readArgs ::
  "(string \<Rightarrow> stox_error + 'f) \<Rightarrow> nat \<Rightarrow> BEHAVIOUR \<Rightarrow> 'f GetOpt \<Rightarrow>
   ((error + string list) \<times> 'f GetOpt) option" where
  "readArgs stod fuel behaviour s =
     (if argv s = None then Some (Inl No_argv, s)
      else (case behaviour of
              STRICT \<Rightarrow> internal_readArgs_STRICT stod fuel s
            | AS_IS \<Rightarrow> internal_readArgs_AS_IS stod fuel s))"

subsection \<open>Programs that use the parser\<close>

text \<open>
  A conversion for programs that register no floating-point flag, where \<^verbatim>\<open>std::stod\<close>
  is never called.
\<close>

definition stod_unused :: "string \<Rightarrow> stox_error + unit" where
  "stod_unused text = Inl Invalid_argument"

text \<open>
  \<^verbatim>\<open>flagBoolean("-a")\<close>, \<^verbatim>\<open>flagInt("-n")\<close>, then the vector of a process entry point.
\<close>

definition end_to_end_state :: "'f GetOpt" where
  "end_to_end_state =
     caller_argv [''prog'', ''-a'', ''-n'', ''5'', ''file.txt''] True
       (snd (flagInt ''-n'' 0 (snd (flagBoolean ''-a'' False new_GetOpt))))"

text \<open>Three boolean flags and the single token \<^verbatim>\<open>-abc\<close>, not from a process entry point.\<close>

definition cluster_state :: "'f GetOpt" where
  "cluster_state =
     caller_argv [''-abc''] False
       (snd (flagBoolean ''-c'' False
         (snd (flagBoolean ''-b'' False
           (snd (flagBoolean ''-a'' False new_GetOpt))))))"

text \<open>One boolean flag with a short and a long spelling, and any vector.\<close>

definition append_state :: "string list \<Rightarrow> bool \<Rightarrow> 'f GetOpt" where
  "append_state tokens isFromSystem =
     caller_argv tokens isFromSystem (snd (flagBoolean ''-a,--append'' False new_GetOpt))"

text \<open>The spelling \<^verbatim>\<open>-v\<close> registered as a boolean and then again as an integer.\<close>

definition twice_registered :: "'f GetOpt" where
  "twice_registered = snd (flagInt ''-v'' 0 (snd (flagBoolean ''-v'' False new_GetOpt)))"

text \<open>Flags with two different first characters, and a token that starts with the second.\<close>

definition two_markers_state :: "'f GetOpt" where
  "two_markers_state =
     caller_argv [''/x''] False
       (snd (flagBoolean ''/b'' False (snd (flagBoolean ''-a'' False new_GetOpt))))"

text \<open>An integer flag with a long spelling, given without a value.\<close>

definition count_state :: "'f GetOpt" where
  "count_state = caller_argv [''--count''] False (snd (flagInt ''--count'' 0 new_GetOpt))"

section \<open>Evaluation\<close>

text \<open>
  Runs on concrete vectors are evaluated by the simplifier. With this congruence rule it
  rewrites the first argument of \<open>bind_err\<close> to a result before it enters the
  continuation, as the program runs.
\<close>

lemma bind_err_weak_cong: "m = m' \<Longrightarrow> bind_err m f = bind_err m' f"
  by simp

lemma unat_minus_one_64: "unat (- 1 :: 64 word) = 18446744073709551615"
  by (simp add: unsigned_minus_1_eq_mask mask_eq_exp_minus_1)

lemmas string_defs = npos_def NUL_def str_size_def str_find_last_of_def substr_def str_at0_def
  stripQuotes_def isspace_def isdigit_def stoi_def map_find_def map_insert_def map_at_def
  map_begin_def unat_minus_one_64

lemmas memory_defs = new_GetOpt_def initialize_def getOptions_def caller_argv_def c_string_def
  argv_ptr_def argv_string_def strcpy_def load_bool_def store_bool_def store_float_def
  store_int_def store_str_def flagBoolean_def flagFloating_def flagInt_def flagString_def

lemmas parse_defs = memcpy_argv_def expand_cluster_def flag_not_found_def bool_next_token_def
  bool_equals_value_def bool_STRICT_def bool_AS_IS_def value_after_equals_def
  value_next_token_def HANDLE_NUMERIC_FLAGS_def HANDLE_NUMERIC_FLAGS_AS_IS_def step_STRICT_def
  step_AS_IS_def internal_readArgs_def internal_readArgs_STRICT_def
  internal_readArgs_AS_IS_def readArgs_def

lemma two_Suc: "(2::nat) = Suc (Suc 0)"
  by simp

lemma three_Suc: "(3::nat) = Suc (Suc (Suc 0))"
  by simp

lemma four_Suc: "(4::nat) = Suc (Suc (Suc (Suc 0)))"
  by simp

subsection \<open>More fuel does not change a finished run\<close>

lemma while_loop_more_fuel:
  "while_loop step n s i ivf = Some r \<Longrightarrow> while_loop step (n + k) s i ivf = Some r"
proof (induction n arbitrary: s i ivf)
  case 0
  then show ?case by (cases k) (auto split: if_splits)
next
  case (Suc n)
  then show ?case by (auto split: if_splits sum.splits prod.splits)
qed

lemma internal_readArgs_more_fuel:
  assumes "internal_readArgs step n s = Some r"
  shows "internal_readArgs step (n + k) s = Some r"
proof (cases "argv s = None")
  case True
  with assms show ?thesis by (simp add: internal_readArgs_def)
next
  case False
  obtain r' where r': "while_loop step n s (if from_sys s then 1 else 0) [] = Some r'"
    using assms False by (auto simp: internal_readArgs_def Let_def split: option.splits)
  from while_loop_more_fuel [OF r']
  have "while_loop step (n + k) s (if from_sys s then 1 else 0) [] = Some r'" .
  with assms r' False show ?thesis by (auto simp add: internal_readArgs_def Let_def)
qed

lemma readArgs_more_fuel:
  "readArgs stod n b s = Some r \<Longrightarrow> readArgs stod (n + k) b s = Some r"
  by (cases b)
     (auto simp: readArgs_def internal_readArgs_STRICT_def internal_readArgs_AS_IS_def
           intro: internal_readArgs_more_fuel)

section \<open>The end-to-end run of the STRICT dialect\<close>

lemma end_to_end_run:
  "readArgs stod (Suc (Suc (Suc 0))) STRICT end_to_end_state =
     Some (Inr [], end_to_end_state
             \<lparr>options := [''file.txt''], bool_cells := [True], int_cells := [5]\<rparr>)"
  by (simp add: end_to_end_state_def string_defs memory_defs parse_defs Let_def upt_rec
           cong: bind_err_weak_cong)

text \<open>
  Claim C3. With the boolean flag \<^verbatim>\<open>-a\<close> (default false) and the integer flag
  \<^verbatim>\<open>-n\<close> (default 0) registered, the STRICT pass over
  \<^verbatim>\<open>["prog","-a","-n","5","file.txt"]\<close>, taken from a process entry point, returns
  on any fuel from 3 on, with no unrecognized flag; the cell behind the pointer that
  \<^verbatim>\<open>flagBoolean\<close> returned holds true, the cell behind the pointer that \<^verbatim>\<open>flagInt\<close>
  returned holds 5, and the options are \<^verbatim>\<open>["file.txt"]\<close>.
\<close>

theorem C3_end_to_end:
  "map_option
     (\<lambda>(r, s'). (r, load_bool (fst (flagBoolean ''-a'' False new_GetOpt)) s',
                 int_cells s' ! fst (flagInt ''-n'' 0 (snd (flagBoolean ''-a'' False new_GetOpt))),
                 getOptions s'))
     (readArgs stod (3 + k) STRICT end_to_end_state)
   = Some (Inr [], Inr True, 5, [''file.txt''])"
proof -
  have "readArgs stod (Suc (Suc (Suc 0)) + k) STRICT end_to_end_state =
     Some (Inr [], end_to_end_state
             \<lparr>options := [''file.txt''], bool_cells := [True], int_cells := [5]\<rparr>)"
    by (rule readArgs_more_fuel [OF end_to_end_run])
  then show ?thesis
    by (simp add: three_Suc load_bool_def getOptions_def flagBoolean_def flagInt_def
          new_GetOpt_def)
qed

section \<open>Clustered short flags\<close>

lemma cluster_first_step:
  "step_STRICT stod cluster_state 0 [] =
     Inr (cluster_state\<lparr>allocs := [1, 2],
            mem := [[CHR ''-'', CHR ''c'', NUL, CHR ''c'', NUL], ''-a'' @ [NUL], ''-b'' @ [NUL]],
            arrays := [[0], [0, 1, 2]], argc := 3, argv := Some 1\<rparr>, 0, [])"
  "step_AS_IS stod cluster_state 0 [] =
     Inr (cluster_state\<lparr>allocs := [1, 2],
            mem := [[CHR ''-'', CHR ''c'', NUL, CHR ''c'', NUL], ''-a'' @ [NUL], ''-b'' @ [NUL]],
            arrays := [[0], [0, 1, 2]], argc := 3, argv := Some 1\<rparr>, 0, [])"
  by (simp_all add: cluster_state_def string_defs memory_defs parse_defs Let_def upt_rec
           cong: bind_err_weak_cong)

lemma cluster_run:
  "readArgs stod (Suc (Suc (Suc (Suc 0)))) STRICT cluster_state =
     Some (Inr [], cluster_state\<lparr>
            mem := [[CHR ''-'', CHR ''c'', NUL, CHR ''c'', NUL], ''-a'' @ [NUL], ''-b'' @ [NUL]],
            arrays := [[0], [0, 1, 2]], argc := 3, bool_cells := [True, True, True]\<rparr>)"
  "readArgs stod (Suc (Suc (Suc (Suc 0)))) AS_IS cluster_state =
     Some (Inr [], cluster_state\<lparr>
            mem := [[CHR ''-'', CHR ''c'', NUL, CHR ''c'', NUL], ''-a'' @ [NUL], ''-b'' @ [NUL]],
            arrays := [[0], [0, 1, 2]], argc := 3, bool_cells := [True, True, True]\<rparr>)"
  by (simp_all add: cluster_state_def string_defs memory_defs parse_defs Let_def upt_rec
           cong: bind_err_weak_cong)



section \<open>Boolean flags followed by a value\<close>

lemma strict_short_zero_run:
  "step_STRICT stod (append_state [''prog'', ''-a'', ''0''] True) (Suc 0) [] =
     Inr ((append_state [''prog'', ''-a'', ''0''] True)\<lparr>bool_cells := [True]\<rparr>, 2, [])"
  "readArgs stod (Suc (Suc 0)) STRICT (append_state [''prog'', ''-a'', ''0''] True) =
     Some (Inr [], (append_state [''prog'', ''-a'', ''0''] True)
                     \<lparr>options := [''0''], bool_cells := [True]\<rparr>)"
  by (simp_all add: append_state_def string_defs memory_defs parse_defs Let_def upt_rec
           cong: bind_err_weak_cong)

text \<open>
  Claim C1 (the code departs from it). With the boolean flag \<^verbatim>\<open>-a,--append\<close>
  (default false) and the vector \<^verbatim>\<open>["prog","-a","0"]\<close> of a process entry point, the
  STRICT iteration at \<^verbatim>\<open>-a\<close> tests \<^verbatim>\<open>_argv[index + 1]\<close> with \<open>index = 0\<close>, which
  is the token \<^verbatim>\<open>-a\<close> itself and not the following \<^verbatim>\<open>0\<close>: it stores true and
  advances by one, and the pass ends with the cell true and \<^verbatim>\<open>0\<close> among the options.
\<close>

theorem C1_strict_short_zero:
  "map_sum id (\<lambda>(s', i', ivf'). (bool_cells s', i', ivf'))
     (step_STRICT stod (append_state [''prog'', ''-a'', ''0''] True) 1 [])
     = Inr ([True], 2, []) \<and>
   map_option (\<lambda>(r, s'). (r, bool_cells s', getOptions s'))
     (readArgs stod (2 + k) STRICT (append_state [''prog'', ''-a'', ''0''] True))
     = Some (Inr [], [True], [''0''])"
proof -
  have "readArgs stod (Suc (Suc 0) + k) STRICT (append_state [''prog'', ''-a'', ''0''] True) =
     Some (Inr [], (append_state [''prog'', ''-a'', ''0''] True)
                     \<lparr>options := [''0''], bool_cells := [True]\<rparr>)"
    by (rule readArgs_more_fuel [OF strict_short_zero_run(2)])
  then show ?thesis
    by (simp add: two_Suc strict_short_zero_run(1) getOptions_def)
qed

lemma as_is_runs:
  "readArgs stod (Suc (Suc 0)) AS_IS (append_state [''prog'', ''-a'', ''0''] True) =
     Some (Inr [], (append_state [''prog'', ''-a'', ''0''] True)
                     \<lparr>options := [''0''], bool_cells := [True]\<rparr>)"
  "readArgs stod (Suc (Suc 0)) AS_IS (append_state [''prog'', ''--append'', ''0''] True) =
     Some (Inr [], (append_state [''prog'', ''--append'', ''0''] True)
                     \<lparr>options := [''0''], bool_cells := [True]\<rparr>)"
  "readArgs stod (Suc (Suc 0)) AS_IS (append_state [''prog'', ''-a=0''] True) =
     Some (Inr [], (append_state [''prog'', ''-a=0''] True)\<lparr>bool_cells := [False]\<rparr>)"
  "readArgs stod (Suc (Suc 0)) AS_IS (append_state [''prog'', ''--append=0''] True) =
     Some (Inr [], (append_state [''prog'', ''--append=0''] True)\<lparr>bool_cells := [False]\<rparr>)"
  by (simp_all add: append_state_def string_defs memory_defs parse_defs Let_def upt_rec
           cong: bind_err_weak_cong)

text \<open>
  Claim C2 (the code departs from it). In the AS_IS dialect, with the same flag, the
  four forms do not agree: \<^verbatim>\<open>-a 0\<close> and \<^verbatim>\<open>--append 0\<close> leave the cell true and
  \<^verbatim>\<open>0\<close> among the options, \<^verbatim>\<open>-a=0\<close> and \<^verbatim>\<open>--append=0\<close> leave it false.
  Without an equals sign \<open>index\<close> is \<open>npos\<close>, and \<^verbatim>\<open>_argv[index + 1]\<close> is
  \<^verbatim>\<open>_argv[0]\<close>, the program name.
\<close>

theorem C2_as_is_forms_differ:
  "map (\<lambda>tokens. map_option (\<lambda>(r, s'). (r, bool_cells s', getOptions s'))
          (readArgs stod (2 + k) AS_IS (append_state tokens True)))
     [[''prog'', ''-a'', ''0''], [''prog'', ''--append'', ''0''],
      [''prog'', ''-a=0''], [''prog'', ''--append=0'']]
   = [Some (Inr [], [True], [''0'']), Some (Inr [], [True], [''0'']),
      Some (Inr [], [False], []), Some (Inr [], [False], [])]"
proof -
  have runs:
    "readArgs stod (Suc (Suc k)) AS_IS (append_state [''prog'', ''-a'', ''0''] True) =
       Some (Inr [], (append_state [''prog'', ''-a'', ''0''] True)
                       \<lparr>options := [''0''], bool_cells := [True]\<rparr>)"
    "readArgs stod (Suc (Suc k)) AS_IS (append_state [''prog'', ''--append'', ''0''] True) =
       Some (Inr [], (append_state [''prog'', ''--append'', ''0''] True)
                       \<lparr>options := [''0''], bool_cells := [True]\<rparr>)"
    "readArgs stod (Suc (Suc k)) AS_IS (append_state [''prog'', ''-a=0''] True) =
       Some (Inr [], (append_state [''prog'', ''-a=0''] True)\<lparr>bool_cells := [False]\<rparr>)"
    "readArgs stod (Suc (Suc k)) AS_IS (append_state [''prog'', ''--append=0''] True) =
       Some (Inr [], (append_state [''prog'', ''--append=0''] True)\<lparr>bool_cells := [False]\<rparr>)"
    using as_is_runs [THEN readArgs_more_fuel, of _ k] by simp_all
  have opts: "options (append_state tokens True) = []" for tokens
    by (simp add: append_state_def memory_defs)
  show ?thesis
    by (simp add: two_Suc runs getOptions_def opts)
qed

section \<open>Reads of the argument vector\<close>

lemma strict_final_flag_run:
  "readArgs stod (Suc 0) STRICT (append_state [''-a''] False) =
     Some (Inl UB_read_out_of_bounds, append_state [''-a''] False)"
  by (simp add: append_state_def string_defs memory_defs parse_defs Let_def upt_rec
           cong: bind_err_weak_cong)

text \<open>
  Claim C10 (the code departs from it). With the boolean flag \<^verbatim>\<open>-a,--append\<close> and
  the vector \<^verbatim>\<open>["-a"]\<close>, not from a process entry point, the vector has one entry
  and the STRICT pass reads \<^verbatim>\<open>_argv[1]\<close>, past its end.
\<close>

theorem C10_strict_reads_past_end:
  "argc (append_state [''-a''] False) = 1 \<and>
   argv_ptr (append_state [''-a''] False) 1 = Inl UB_read_out_of_bounds \<and>
   readArgs stod (1 + k) STRICT (append_state [''-a''] False) =
     Some (Inl UB_read_out_of_bounds, append_state [''-a''] False)"
proof -
  have "readArgs stod (Suc 0 + k) STRICT (append_state [''-a''] False) =
     Some (Inl UB_read_out_of_bounds, append_state [''-a''] False)"
    by (rule readArgs_more_fuel [OF strict_final_flag_run])
  moreover have "argc (append_state [''-a''] False) = 1 \<and>
      argv_ptr (append_state [''-a''] False) 1 = Inl UB_read_out_of_bounds"
    by (simp add: append_state_def memory_defs)
  ultimately show ?thesis by simp
qed

section \<open>The exception no_argv\<close>

lemma bind_err_eq_Inl:
  "bind_err m f = Inl e \<longleftrightarrow> m = Inl e \<or> (\<exists>x. m = Inr x \<and> f x = Inl e)"
  by (cases m) auto

lemma rethrow_not_No_argv: "rethrow r \<noteq> Inl No_argv"
  by (cases r rule: rethrow.cases) simp_all

lemma substr_not_No_argv: "substr t pos n \<noteq> Inl No_argv"
  by (simp add: substr_def)

lemma stripQuotes_not_No_argv: "stripQuotes t \<noteq> Inl No_argv"
  by (simp add: stripQuotes_def substr_not_No_argv)

lemma map_at_not_No_argv: "map_at k m \<noteq> Inl No_argv"
  by (simp add: map_at_def split: option.splits)

lemma map_begin_not_No_argv: "map_begin m \<noteq> Inl No_argv"
  by (simp add: map_begin_def split: list.splits)

lemma argv_string_not_No_argv: "argv_string s k \<noteq> Inl No_argv"
  by (auto simp: argv_string_def argv_ptr_def c_string_def bind_err_eq_Inl split: option.splits)

lemma store_not_No_argv:
  "store_bool p b s \<noteq> Inl No_argv" "store_float p f s \<noteq> Inl No_argv"
  "store_int p n s \<noteq> Inl No_argv" "store_str p t s \<noteq> Inl No_argv"
  "load_bool p s \<noteq> Inl No_argv"
  by (simp_all add: store_bool_def store_float_def store_int_def store_str_def load_bool_def)

lemma strcpy_not_No_argv: "strcpy m dst src \<noteq> Inl No_argv"
  by (simp add: strcpy_def)

lemma memcpy_argv_not_No_argv: "memcpy_argv s \<noteq> Inl No_argv"
  by (simp add: memcpy_argv_def split: option.splits)

lemmas prim_not_No_argv = rethrow_not_No_argv substr_not_No_argv stripQuotes_not_No_argv
  map_at_not_No_argv map_begin_not_No_argv argv_string_not_No_argv store_not_No_argv
  strcpy_not_No_argv memcpy_argv_not_No_argv

lemma expand_cluster_not_No_argv: "expand_cluster s i flag \<noteq> Inl No_argv"
  by (auto simp: expand_cluster_def Let_def bind_err_eq_Inl prim_not_No_argv split: prod.splits)

lemma flag_not_found_not_No_argv: "flag_not_found s i ivf flag \<noteq> Inl No_argv"
  by (auto simp: flag_not_found_def bind_err_eq_Inl prim_not_No_argv expand_cluster_not_No_argv)

lemma bool_next_token_not_No_argv: "bool_next_token s i ivf data index \<noteq> Inl No_argv"
  by (auto simp: bool_next_token_def bind_err_eq_Inl prim_not_No_argv)

lemma bool_equals_value_not_No_argv: "bool_equals_value s i ivf flag data index \<noteq> Inl No_argv"
  by (auto simp: bool_equals_value_def bind_err_eq_Inl prim_not_No_argv)

lemma bool_not_No_argv:
  "bool_STRICT s i ivf flag flag_only \<noteq> Inl No_argv"
  "bool_AS_IS s i ivf flag flag_only \<noteq> Inl No_argv"
  by (auto simp: bool_STRICT_def bool_AS_IS_def Let_def bind_err_eq_Inl prim_not_No_argv
        bool_next_token_not_No_argv bool_equals_value_not_No_argv)

lemma value_not_No_argv:
  assumes "\<And>p v. store p v s \<noteq> Inl No_argv"
  shows "value_after_equals conv store s i ivf flag data index \<noteq> Inl No_argv"
    and "value_next_token conv store s i ivf flag data \<noteq> Inl No_argv"
  using assms
  by (auto simp: value_after_equals_def value_next_token_def bind_err_eq_Inl prim_not_No_argv)

lemma numeric_not_No_argv:
  assumes "\<And>p v. store p v s \<noteq> Inl No_argv"
  shows "HANDLE_NUMERIC_FLAGS lookup conv store s i ivf flag flag_only \<noteq> Inl No_argv"
    and "HANDLE_NUMERIC_FLAGS_AS_IS lookup conv store s i ivf flag flag_only \<noteq> Inl No_argv"
  using value_not_No_argv [of store s, OF assms]
  by (auto simp: HANDLE_NUMERIC_FLAGS_def HANDLE_NUMERIC_FLAGS_AS_IS_def Let_def
        bind_err_eq_Inl prim_not_No_argv)

lemma step_not_No_argv:
  "step_STRICT stod s i ivf \<noteq> Inl No_argv" "step_AS_IS stod s i ivf \<noteq> Inl No_argv"
  by (auto simp: step_STRICT_def step_AS_IS_def bind_err_eq_Inl prim_not_No_argv
        flag_not_found_not_No_argv bool_not_No_argv numeric_not_No_argv
        split: option.splits flag_TYPE.splits)

lemma while_loop_not_No_argv:
  assumes "\<And>s i ivf. step s i ivf \<noteq> Inl No_argv"
  shows "while_loop step fuel s i ivf \<noteq> Some (Inl No_argv, s')"
proof (induction fuel arbitrary: s i ivf)
  case 0
  show ?case by simp
next
  case (Suc fuel)
  show ?case
  proof (cases "step s i ivf")
    case (Inl e)
    with assms [of s i ivf] show ?thesis by auto
  next
    case (Inr x)
    with Suc show ?thesis by (cases x) auto
  qed
qed

lemma internal_readArgs_No_argv:
  assumes "\<And>s i ivf. step s i ivf \<noteq> Inl No_argv"
  shows "(\<exists>s'. internal_readArgs step fuel s = Some (Inl No_argv, s')) \<longleftrightarrow> argv s = None"
proof
  assume "argv s = None"
  then show "\<exists>s'. internal_readArgs step fuel s = Some (Inl No_argv, s')"
    by (simp add: internal_readArgs_def)
next
  assume "\<exists>s'. internal_readArgs step fuel s = Some (Inl No_argv, s')"
  then obtain s' where r: "internal_readArgs step fuel s = Some (Inl No_argv, s')" ..
  show "argv s = None"
  proof (rule ccontr)
    assume n: "argv s \<noteq> None"
    with r have "while_loop step fuel s (if from_sys s then 1 else 0) [] = Some (Inl No_argv, s')"
      by (auto simp: internal_readArgs_def Let_def split: option.splits sum.splits prod.splits)
    with while_loop_not_No_argv [of step, OF assms] show False by blast
  qed
qed

text \<open>
  Claim C9. \<^verbatim>\<open>readArgs\<close>, in either dialect and on any fuel, ends with the exception
  \<^verbatim>\<open>no_argv\<close> exactly when \<^verbatim>\<open>_argv\<close> is null, and then the whole state (lookup
  tables, cells, options) is as before. \<^verbatim>\<open>_argv\<close> is null in a default-constructed
  object and is not after \<^verbatim>\<open>initialize\<close> with an array.
\<close>

theorem C9_no_argv:
  "((\<exists>s'. readArgs stod fuel behaviour s = Some (Inl No_argv, s')) \<longleftrightarrow> argv s = None) \<and>
   (argv s = None \<longrightarrow> readArgs stod fuel behaviour s = Some (Inl No_argv, s)) \<and>
   argv (new_GetOpt :: 'f GetOpt) = None \<and>
   argv (initialize n (Some a) isFromSystem s) \<noteq> None"
proof -
  have "(\<exists>s'. readArgs stod fuel behaviour s = Some (Inl No_argv, s')) \<longleftrightarrow> argv s = None"
  proof (cases "argv s = None")
    case True
    then show ?thesis by (simp add: readArgs_def)
  next
    case False
    then show ?thesis
      using internal_readArgs_No_argv [of "step_STRICT stod" fuel s, OF step_not_No_argv(1)]
        internal_readArgs_No_argv [of "step_AS_IS stod" fuel s, OF step_not_No_argv(2)]
      by (cases behaviour)
         (simp_all add: readArgs_def internal_readArgs_STRICT_def internal_readArgs_AS_IS_def)
  qed
  then show ?thesis
    by (simp add: readArgs_def new_GetOpt_def initialize_def)
qed

theorem C9_no_argv_witness:
  "readArgs stod_unused 5 STRICT new_GetOpt = Some (Inl No_argv, new_GetOpt) \<and>
   readArgs stod_unused 5 AS_IS new_GetOpt = Some (Inl No_argv, new_GetOpt) \<and>
   readArgs stod_unused 1 STRICT (append_state [''-x''] False)
     \<noteq> Some (Inl No_argv, append_state [''-x''] False)"
proof -
  have n: "argv (new_GetOpt :: unit GetOpt) = None" by (simp add: new_GetOpt_def)
  have a: "argv (append_state [''-x''] False :: unit GetOpt) \<noteq> None"
    by (simp add: append_state_def caller_argv_def initialize_def)
  show ?thesis
    using C9_no_argv [of stod_unused 5 STRICT new_GetOpt 0 0 True]
      C9_no_argv [of stod_unused 5 AS_IS new_GetOpt 0 0 True]
      C9_no_argv [of stod_unused 1 STRICT "append_state [''-x''] False" 0 0 True] n a
    by blast
qed

section \<open>Registering a spelling again\<close>

lemma map_find_map_insert_kept:
  "map_find a m = Some x \<Longrightarrow> map_find a (map_insert k v m) = Some x"
  by (simp add: map_find_def map_insert_def)

lemma fold_register_kept:
  fixes upd :: "string \<Rightarrow> 'f GetOpt \<Rightarrow> 'f GetOpt"
  assumes "\<And>flag s. P s \<Longrightarrow> P (upd flag s)"
  shows "P s \<Longrightarrow> P (fold upd flags s)"
  by (induction flags arbitrary: s) (simp_all add: assms)

lemma flagBoolean_kept:
  "map_find a (main_lookup s) = Some ty \<Longrightarrow> map_find a (main_lookup (snd (flagBoolean n d s))) = Some ty"
  "map_find a (bool_lookup s) = Some p \<Longrightarrow> map_find a (bool_lookup (snd (flagBoolean n d s))) = Some p"
  "map_find a (float_lookup s) = Some p \<Longrightarrow> map_find a (float_lookup (snd (flagBoolean n d s))) = Some p"
  "map_find a (int_lookup s) = Some p \<Longrightarrow> map_find a (int_lookup (snd (flagBoolean n d s))) = Some p"
  "map_find a (str_lookup s) = Some p \<Longrightarrow> map_find a (str_lookup (snd (flagBoolean n d s))) = Some p"
  unfolding flagBoolean_def Let_def snd_conv
  by (rule fold_register_kept; simp add: map_find_map_insert_kept)+

lemma flagFloating_kept:
  "map_find a (main_lookup s) = Some ty \<Longrightarrow> map_find a (main_lookup (snd (flagFloating n d s))) = Some ty"
  "map_find a (bool_lookup s) = Some p \<Longrightarrow> map_find a (bool_lookup (snd (flagFloating n d s))) = Some p"
  "map_find a (float_lookup s) = Some p \<Longrightarrow> map_find a (float_lookup (snd (flagFloating n d s))) = Some p"
  "map_find a (int_lookup s) = Some p \<Longrightarrow> map_find a (int_lookup (snd (flagFloating n d s))) = Some p"
  "map_find a (str_lookup s) = Some p \<Longrightarrow> map_find a (str_lookup (snd (flagFloating n d s))) = Some p"
  unfolding flagFloating_def Let_def snd_conv
  by (rule fold_register_kept; simp add: map_find_map_insert_kept)+

lemma flagInt_kept:
  "map_find a (main_lookup s) = Some ty \<Longrightarrow> map_find a (main_lookup (snd (flagInt n d s))) = Some ty"
  "map_find a (bool_lookup s) = Some p \<Longrightarrow> map_find a (bool_lookup (snd (flagInt n d s))) = Some p"
  "map_find a (float_lookup s) = Some p \<Longrightarrow> map_find a (float_lookup (snd (flagInt n d s))) = Some p"
  "map_find a (int_lookup s) = Some p \<Longrightarrow> map_find a (int_lookup (snd (flagInt n d s))) = Some p"
  "map_find a (str_lookup s) = Some p \<Longrightarrow> map_find a (str_lookup (snd (flagInt n d s))) = Some p"
  unfolding flagInt_def Let_def snd_conv
  by (rule fold_register_kept; simp add: map_find_map_insert_kept)+

lemma flagString_kept:
  "map_find a (main_lookup s) = Some ty \<Longrightarrow> map_find a (main_lookup (snd (flagString n d s))) = Some ty"
  "map_find a (bool_lookup s) = Some p \<Longrightarrow> map_find a (bool_lookup (snd (flagString n d s))) = Some p"
  "map_find a (float_lookup s) = Some p \<Longrightarrow> map_find a (float_lookup (snd (flagString n d s))) = Some p"
  "map_find a (int_lookup s) = Some p \<Longrightarrow> map_find a (int_lookup (snd (flagString n d s))) = Some p"
  "map_find a (str_lookup s) = Some p \<Longrightarrow> map_find a (str_lookup (snd (flagString n d s))) = Some p"
  unfolding flagString_def Let_def snd_conv
  by (rule fold_register_kept; simp add: map_find_map_insert_kept)+

text \<open>
  Claim C6, as amended. Whichever of the four registration functions is called, and
  with whatever names, every entry that the main lookup table or one of the typed lookup
  tables already holds for a spelling stays as it is: the spelling keeps the type tag and
  the pointer of its first registration (\<^verbatim>\<open>std::map::insert\<close> does not overwrite).
\<close>

theorem C6_first_registration_kept:
  assumes "s' \<in> {snd (flagBoolean flagName b s), snd (flagFloating flagName f s),
                  snd (flagInt flagName n s), snd (flagString flagName t s)}"
  shows "(\<forall>ty. map_find alias (main_lookup s) = Some ty \<longrightarrow> map_find alias (main_lookup s') = Some ty) \<and>
         (\<forall>p. map_find alias (bool_lookup s) = Some p \<longrightarrow> map_find alias (bool_lookup s') = Some p) \<and>
         (\<forall>p. map_find alias (float_lookup s) = Some p \<longrightarrow> map_find alias (float_lookup s') = Some p) \<and>
         (\<forall>p. map_find alias (int_lookup s) = Some p \<longrightarrow> map_find alias (int_lookup s') = Some p) \<and>
         (\<forall>p. map_find alias (str_lookup s) = Some p \<longrightarrow> map_find alias (str_lookup s') = Some p)"
proof -
  consider "s' = snd (flagBoolean flagName b s)" | "s' = snd (flagFloating flagName f s)"
    | "s' = snd (flagInt flagName n s)" | "s' = snd (flagString flagName t s)"
    using assms by blast
  then show ?thesis
  proof cases
    case 1 then show ?thesis by (simp add: flagBoolean_kept)
  next
    case 2 then show ?thesis by (simp add: flagFloating_kept)
  next
    case 3 then show ?thesis by (simp add: flagInt_kept)
  next
    case 4 then show ?thesis by (simp add: flagString_kept)
  qed
qed

lemma twice_registered_run:
  "readArgs stod (Suc (Suc 0)) STRICT (caller_argv [''-v'', ''5''] False twice_registered) =
     Some (Inr [], (caller_argv [''-v'', ''5''] False twice_registered)
                     \<lparr>options := [''5''], bool_cells := [True]\<rparr>)"
  by (simp add: twice_registered_def string_defs memory_defs parse_defs Let_def upt_rec
           cong: bind_err_weak_cong)

text \<open>
  Claim C6 as stated fails: after \<^verbatim>\<open>flagBoolean("-v")\<close> and then
  \<^verbatim>\<open>flagInt("-v")\<close>, the spelling still has the boolean type tag, and the STRICT
  pass over \<^verbatim>\<open>["-v","5"]\<close> sets the boolean and leaves the integer at 0.
\<close>

theorem C6_later_registration_ignored:
  "map_find ''-v'' (main_lookup (twice_registered :: unit GetOpt)) = Some BOOL_T \<and>
   map_find ''-v'' (main_lookup (twice_registered :: unit GetOpt)) \<noteq> Some INT_T \<and>
   int_cells (caller_argv [''-v'', ''5''] False (twice_registered :: unit GetOpt)) = [0] \<and>
   readArgs stod_unused 2 STRICT (caller_argv [''-v'', ''5''] False twice_registered) =
     Some (Inr [], (caller_argv [''-v'', ''5''] False twice_registered)
                     \<lparr>options := [''5''], bool_cells := [True]\<rparr>)"
  by (simp add: two_Suc twice_registered_run)
     (simp add: twice_registered_def string_defs memory_defs)

text \<open>The amended claim C6 at \<^verbatim>\<open>flagBoolean("-v")\<close> followed by \<^verbatim>\<open>flagInt("-v", 7)\<close>.\<close>

theorem C6_first_registration_kept_witness:
  "map_find ''-v'' (main_lookup (snd (flagBoolean ''-v'' False (new_GetOpt :: unit GetOpt)))) = Some BOOL_T \<and>
   map_find ''-v'' (bool_lookup (snd (flagBoolean ''-v'' False (new_GetOpt :: unit GetOpt)))) = Some 0 \<and>
   map_find ''-v'' (main_lookup (snd (flagInt ''-v'' 7 (snd (flagBoolean ''-v'' False (new_GetOpt :: unit GetOpt)))))) = Some BOOL_T \<and>
   map_find ''-v'' (bool_lookup (snd (flagInt ''-v'' 7 (snd (flagBoolean ''-v'' False (new_GetOpt :: unit GetOpt)))))) = Some 0"
proof -
  have m: "map_find ''-v'' (main_lookup (snd (flagBoolean ''-v'' False (new_GetOpt :: unit GetOpt)))) = Some BOOL_T"
    and b: "map_find ''-v'' (bool_lookup (snd (flagBoolean ''-v'' False (new_GetOpt :: unit GetOpt)))) = Some 0"
    by (simp_all add: string_defs memory_defs)
  show ?thesis
    using C6_first_registration_kept
      [of "snd (flagInt ''-v'' 7 (snd (flagBoolean ''-v'' False (new_GetOpt :: unit GetOpt))))"
          "''-v''" False "snd (flagBoolean ''-v'' False (new_GetOpt :: unit GetOpt))" "()" 7 "''''" "''-v''"]
      m b
    by simp
qed

section \<open>Tokens that are not in the lookup table\<close>

subsection \<open>The first entry of a map is its least\<close>

lemma string_less_cases:
  "string_less a c \<Longrightarrow> string_less a b \<or> string_less b c"
proof (induction a c arbitrary: b rule: string_less.induct)
  case (1)
  then show ?case by simp
next
  case (2 y ys)
  then show ?case by (cases b) auto
next
  case (3 x xs)
  then show ?case by simp
next
  case (4 x xs y ys)
  show ?case
  proof (cases b)
    case Nil
    then show ?thesis by simp
  next
    case (Cons z zs)
    with 4 show ?thesis
      by (auto split: if_splits)
  qed
qed

lemma string_less_asym: "string_less a b \<Longrightarrow> \<not> string_less b a"
  by (induction a b rule: string_less.induct) (auto split: if_splits)

lemma least_entry_least:
  "least_entry e xs \<in> set (e # xs) \<and>
   (\<forall>x \<in> set (e # xs). \<not> string_less (fst x) (fst (least_entry e xs)))"
proof (induction xs arbitrary: e)
  case Nil
  have "\<not> string_less a a" for a by (induction a) auto
  then show ?case by simp
next
  case (Cons y ys)
  let ?e = "if string_less (fst y) (fst e) then y else e"
  from Cons [of ?e] have in_set: "least_entry ?e ys \<in> set (?e # ys)"
    and least: "\<forall>x \<in> set (?e # ys). \<not> string_less (fst x) (fst (least_entry ?e ys))"
    by blast+
  have "\<not> string_less (fst e) (fst (least_entry ?e ys))"
       "\<not> string_less (fst y) (fst (least_entry ?e ys))"
    using least string_less_cases [of "fst e" "fst (least_entry ?e ys)" "fst y"]
      string_less_cases [of "fst y" "fst (least_entry ?e ys)" "fst e"]
      string_less_asym [of "fst e" "fst y"]
    by (auto split: if_splits)
  with in_set least show ?case by (auto split: if_splits)
qed

lemma map_begin_least:
  "map_begin m = Inr e \<longrightarrow> e \<in> set m \<and> (\<forall>x \<in> set m. \<not> string_less (fst x) (fst e))"
proof (cases m)
  case Nil
  then show ?thesis by (simp add: map_begin_def)
next
  case (Cons a list)
  show ?thesis
  proof
    assume "map_begin m = Inr e"
    with Cons have "e = least_entry a list" by (simp add: map_begin_def)
    with Cons least_entry_least [of a list]
    show "e \<in> set m \<and> (\<forall>x \<in> set m. \<not> string_less (fst x) (fst e))" by simp
  qed
qed

subsection \<open>Flags, clusters and options\<close>

lemma expand_cluster_options:
  "expand_cluster s i flag = Inr s' \<Longrightarrow> options s' = options s"
  unfolding expand_cluster_def Let_def
  by (cases "substr flag 1 (str_size flag - 2)"; cases "memcpy_argv s")
     (auto split: if_splits prod.splits sum.splits
           elim!: bind_err.elims)

text \<open>
  Claim C7, as amended. In either dialect, for a token whose flag-only part is not in the
  lookup table, and a lookup table that is not empty: the token is compared with the first
  entry of the table, which is the registered spelling that is least in byte order. When
  the first characters are equal the token is flag-like: it is recorded as unrecognized, or
  expanded as a cluster, according to its first two characters, and the options stay as
  they are. When they differ the token is appended to the options and the index advances
  by one. So the token is appended to the options exactly when the first characters differ.
\<close>

theorem C7_flag_like_by_first_entry:
  assumes "step = step_STRICT stod \<or> step = step_AS_IS stod"
    and "argv_string s i = Inr flag"
    and "substr flag 0 (str_find (CHR ''='') flag) = Inr flag_only"
    and "map_find flag_only (main_lookup s) = None"
    and "map_begin (main_lookup s) = Inr first_entry"
  shows "step s i ivf =
           (if str_at0 (fst first_entry) = str_at0 flag then
              (if map_find (take 2 flag) (main_lookup s) = None
               then Inr (s, i + 1, ivf @ [flag])
               else bind_err (expand_cluster s i flag) (\<lambda>s'. Inr (s', i, ivf)))
            else Inr (s\<lparr>options := options s @ [flag]\<rparr>, i + 1, ivf)) \<and>
         (\<forall>s' i' ivf'. step s i ivf = Inr (s', i', ivf') \<longrightarrow>
            (options s' = options s @ [flag]) = (str_at0 (fst first_entry) \<noteq> str_at0 flag)) \<and>
         first_entry \<in> set (main_lookup s) \<and>
         (\<forall>x \<in> set (main_lookup s). \<not> string_less (fst x) (fst first_entry))"
proof -
  have two: "substr flag 0 2 = Inr (take 2 flag)"
    by (simp add: substr_def)
  have eq: "step s i ivf = flag_not_found s i ivf flag"
    using assms(1-4) by (auto simp: step_STRICT_def step_AS_IS_def)
  have nf: "flag_not_found s i ivf flag =
           (if str_at0 (fst first_entry) = str_at0 flag then
              (if map_find (take 2 flag) (main_lookup s) = None
               then Inr (s, i + 1, ivf @ [flag])
               else bind_err (expand_cluster s i flag) (\<lambda>s'. Inr (s', i, ivf)))
            else Inr (s\<lparr>options := options s @ [flag]\<rparr>, i + 1, ivf))"
    using assms(5) by (simp add: flag_not_found_def two)
  have opt: "(options s' = options s @ [flag]) = (str_at0 (fst first_entry) \<noteq> str_at0 flag)"
    if "flag_not_found s i ivf flag = Inr (s', i', ivf')" for s' i' ivf'
  proof (cases "str_at0 (fst first_entry) = str_at0 flag")
    case False
    with that nf show ?thesis by auto
  next
    case True
    show ?thesis
    proof (cases "map_find (take 2 flag) (main_lookup s) = None")
      case None: True
      with that nf \<open>str_at0 (fst first_entry) = str_at0 flag\<close> show ?thesis by auto
    next
      case False
      with that nf True obtain s'' where "expand_cluster s i flag = Inr s''" "s' = s''"
        by (cases "expand_cluster s i flag") auto
      with expand_cluster_options [of s i flag s''] True show ?thesis by simp
    qed
  qed
  show ?thesis
    using eq nf opt map_begin_least [of "main_lookup s" first_entry] assms(5) by simp
qed

text \<open>
  Claim C7 as stated fails: with \<^verbatim>\<open>-a\<close> and \<^verbatim>\<open>/b\<close> registered, the token
  \<^verbatim>\<open>/x\<close> starts like the registered \<^verbatim>\<open>/b\<close>, and both dialects append it to the
  options: the table's first entry is \<^verbatim>\<open>-a\<close>.
\<close>

theorem C7_first_char_of_other_flag:
  "map_find ''/b'' (main_lookup (two_markers_state :: unit GetOpt)) = Some BOOL_T \<and>
   str_at0 ''/b'' = str_at0 ''/x'' \<and>
   argv_string (two_markers_state :: unit GetOpt) 0 = Inr ''/x'' \<and>
   map_find ''/x'' (main_lookup (two_markers_state :: unit GetOpt)) = None \<and>
   step_STRICT stod_unused two_markers_state 0 [] =
     Inr (two_markers_state\<lparr>options := [''/x'']\<rparr>, 1, []) \<and>
   step_AS_IS stod_unused two_markers_state 0 [] =
     Inr (two_markers_state\<lparr>options := [''/x'']\<rparr>, 1, [])"
  by (simp add: two_markers_state_def string_defs memory_defs parse_defs Let_def upt_rec
           cong: bind_err_weak_cong)

text \<open>
  The amended claim C7 at the tokens \<^verbatim>\<open>-x\<close> (flag-like, unrecognized) and
  \<^verbatim>\<open>file\<close> (an option), with \<^verbatim>\<open>-a,--append\<close> registered.
\<close>

theorem C7_flag_like_by_first_entry_witness:
  "step_STRICT stod_unused (append_state [''-x'', ''file''] False) 0 [] =
     Inr (append_state [''-x'', ''file''] False, 1, [''-x'']) \<and>
   step_AS_IS stod_unused (append_state [''-x'', ''file''] False) 1 [''-x''] =
     Inr ((append_state [''-x'', ''file''] False)\<lparr>options := [''file'']\<rparr>, 2, [''-x''])"
proof -
  let ?s = "append_state [''-x'', ''file''] False :: unit GetOpt"
  have h: "argv_string ?s 0 = Inr ''-x''" "argv_string ?s 1 = Inr ''file''"
    "substr ''-x'' 0 (str_find (CHR ''='') ''-x'') = Inr ''-x''"
    "substr ''file'' 0 (str_find (CHR ''='') ''file'') = Inr ''file''"
    "map_find ''-x'' (main_lookup ?s) = None" "map_find ''file'' (main_lookup ?s) = None"
    "map_begin (main_lookup ?s) = Inr (''--append'', BOOL_T)"
    "options ?s = []"
    by (simp_all add: append_state_def string_defs memory_defs upt_rec)
  have a: "step_STRICT stod_unused ?s 0 [] = Inr (?s, 1, [''-x''])"
    using C7_flag_like_by_first_entry [of "step_STRICT stod_unused" stod_unused ?s 0 "''-x''" "''-x''"
        "(''--append'', BOOL_T)" "[]"] h
    by (simp add: str_at0_def map_find_def)
  have b: "step_AS_IS stod_unused ?s 1 [''-x''] = Inr (?s\<lparr>options := [''file'']\<rparr>, 2, [''-x''])"
    using C7_flag_like_by_first_entry [of "step_AS_IS stod_unused" stod_unused ?s 1 "''file''" "''file''"
        "(''--append'', BOOL_T)" "[''-x'']"] h
    by (simp add: str_at0_def)
  show ?thesis using a b by simp
qed

section \<open>Numeric flags in long form without a value\<close>

lemma str_find_absent: "c \<notin> set t \<Longrightarrow> str_find c t = npos"
  by (induction t) auto

lemma unat_npos: "unat npos = 2 ^ 64 - 1"
  by (simp add: npos_def unsigned_minus_1_eq_mask mask_eq_exp_minus_1)

lemma substr_whole: "length t < 2 ^ 64 \<Longrightarrow> substr t 0 npos = Inr t"
  by (simp add: substr_def unat_npos)

text \<open>
  Claim C8. In the STRICT dialect, for a token that starts with \<^verbatim>\<open>--\<close>, holds no
  equals sign, and is registered as an integer or as a floating-point flag: the iteration
  appends the whole token to the unrecognized flags, advances the index by one, and leaves
  the state, every cell included, as it is. (A \<^verbatim>\<open>std::string\<close> is shorter than
  \<open>2 ^ 64\<close>.)
\<close>

theorem C8_long_numeric_without_equals:
  assumes "argv_string s i = Inr flag"
    and "str_find_str ''--'' flag = 0"
    and "CHR ''='' \<notin> set flag"
    and "length flag < 2 ^ 64"
    and "(map_find flag (main_lookup s) = Some INT_T \<and> map_find flag (int_lookup s) = Some data) \<or>
         (map_find flag (main_lookup s) = Some FLOAT_T \<and> map_find flag (float_lookup s) = Some data)"
  shows "step_STRICT stod s i ivf = Inr (s, i + 1, ivf @ [flag])"
proof -
  have f: "str_find (CHR ''='') flag = npos"
    using assms(3) by (rule str_find_absent)
  have o: "substr flag 0 npos = Inr flag"
    using assms(4) by (rule substr_whole)
  from assms(5) show ?thesis
  proof
    assume "map_find flag (main_lookup s) = Some INT_T \<and> map_find flag (int_lookup s) = Some data"
    then show ?thesis
      using assms(1,2) by (simp add: step_STRICT_def o HANDLE_NUMERIC_FLAGS_def map_at_def f)
  next
    assume "map_find flag (main_lookup s) = Some FLOAT_T \<and> map_find flag (float_lookup s) = Some data"
    then show ?thesis
      using assms(1,2) by (simp add: step_STRICT_def o HANDLE_NUMERIC_FLAGS_def map_at_def f)
  qed
qed

text \<open>Claim C8 at the token \<^verbatim>\<open>--count\<close>, registered by \<^verbatim>\<open>flagInt("--count")\<close>.\<close>

theorem C8_long_numeric_without_equals_witness:
  "step_STRICT stod_unused count_state 0 [] = Inr (count_state, 1, [''--count'']) \<and>
   int_cells (count_state :: unit GetOpt) = [0]"
proof -
  have h: "argv_string (count_state :: unit GetOpt) 0 = Inr ''--count''"
    "str_find_str ''--'' ''--count'' = 0"
    "CHR ''='' \<notin> set ''--count''"
    "length ''--count'' < 2 ^ 64"
    "map_find ''--count'' (main_lookup (count_state :: unit GetOpt)) = Some INT_T"
    "map_find ''--count'' (int_lookup (count_state :: unit GetOpt)) = Some 0"
    "int_cells (count_state :: unit GetOpt) = [0]"
    by (simp_all add: count_state_def string_defs memory_defs upt_rec)
  show ?thesis
    using C8_long_numeric_without_equals [of count_state 0 "''--count''" 0 stod_unused "[]"] h
    by simp
qed

section \<open>The caller's vector\<close>

subsection \<open>What an iteration leaves in place\<close>

lemma bind_err_eq_Inr:
  "bind_err m f = Inr y \<longleftrightarrow> (\<exists>x. m = Inr x \<and> f x = Inr y)"
  by (cases m) auto

lemma store_frame:
  "store_bool p b s = Inr s' \<Longrightarrow>
     (mem s', arrays s', argv s', argc s', main_lookup s') =
     (mem s, arrays s, argv s, argc s, main_lookup s)"
  "store_float p f s = Inr s' \<Longrightarrow>
     (mem s', arrays s', argv s', argc s', main_lookup s') =
     (mem s, arrays s, argv s, argc s, main_lookup s)"
  "store_int p n s = Inr s' \<Longrightarrow>
     (mem s', arrays s', argv s', argc s', main_lookup s') =
     (mem s, arrays s, argv s, argc s, main_lookup s)"
  "store_str p t s = Inr s' \<Longrightarrow>
     (mem s', arrays s', argv s', argc s', main_lookup s') =
     (mem s, arrays s, argv s, argc s, main_lookup s)"
  by (auto simp: store_bool_def store_float_def store_int_def store_str_def split: if_splits)

lemma bool_next_token_frame:
  "bool_next_token s i ivf data index = Inr (s', i', ivf') \<Longrightarrow>
     (mem s', arrays s', argv s', argc s', main_lookup s') =
     (mem s, arrays s, argv s, argc s, main_lookup s)"
  by (auto simp: bool_next_token_def bind_err_eq_Inr split: if_splits dest!: store_frame(1))

lemma bool_equals_value_frame:
  "bool_equals_value s i ivf flag data index = Inr (s', i', ivf') \<Longrightarrow>
     (mem s', arrays s', argv s', argc s', main_lookup s') =
     (mem s, arrays s, argv s, argc s, main_lookup s)"
  by (auto simp: bool_equals_value_def bind_err_eq_Inr split: if_splits dest!: store_frame(1))

lemma bool_frame:
  "bool_STRICT s i ivf flag flag_only = Inr (s', i', ivf') \<Longrightarrow>
     (mem s', arrays s', argv s', argc s', main_lookup s') =
     (mem s, arrays s, argv s, argc s, main_lookup s)"
  "bool_AS_IS s i ivf flag flag_only = Inr (s', i', ivf') \<Longrightarrow>
     (mem s', arrays s', argv s', argc s', main_lookup s') =
     (mem s, arrays s, argv s, argc s, main_lookup s)"
  by (auto simp: bool_STRICT_def bool_AS_IS_def Let_def bind_err_eq_Inr split: if_splits
        dest!: store_frame(1) bool_next_token_frame bool_equals_value_frame)

lemma value_frame:
  assumes "\<And>p v s'. store p v s = Inr s' \<Longrightarrow>
     (mem s', arrays s', argv s', argc s', main_lookup s') =
     (mem s, arrays s, argv s, argc s, main_lookup s)"
  shows "value_after_equals conv store s i ivf flag data index = Inr (s', i', ivf') \<Longrightarrow>
     (mem s', arrays s', argv s', argc s', main_lookup s') =
     (mem s, arrays s, argv s, argc s, main_lookup s)"
    and "value_next_token conv store s i ivf flag data = Inr (s', i', ivf') \<Longrightarrow>
     (mem s', arrays s', argv s', argc s', main_lookup s') =
     (mem s, arrays s, argv s, argc s, main_lookup s)"
  using assms
  by (auto simp: value_after_equals_def value_next_token_def bind_err_eq_Inr split: if_splits)

lemma numeric_frame:
  assumes "\<And>p v s'. store p v s = Inr s' \<Longrightarrow>
     (mem s', arrays s', argv s', argc s', main_lookup s') =
     (mem s, arrays s, argv s, argc s, main_lookup s)"
  shows "HANDLE_NUMERIC_FLAGS lookup conv store s i ivf flag flag_only = Inr (s', i', ivf') \<Longrightarrow>
     (mem s', arrays s', argv s', argc s', main_lookup s') =
     (mem s, arrays s, argv s, argc s, main_lookup s)"
    and "HANDLE_NUMERIC_FLAGS_AS_IS lookup conv store s i ivf flag flag_only = Inr (s', i', ivf') \<Longrightarrow>
     (mem s', arrays s', argv s', argc s', main_lookup s') =
     (mem s, arrays s, argv s, argc s, main_lookup s)"
  using value_frame [of store s, OF assms]
  by (auto simp: HANDLE_NUMERIC_FLAGS_def HANDLE_NUMERIC_FLAGS_AS_IS_def Let_def bind_err_eq_Inr
        split: if_splits)

lemma numeric_frames:
  "HANDLE_NUMERIC_FLAGS lookup fconv store_float s i ivf flag flag_only = Inr (s', i', ivf') \<Longrightarrow>
     (mem s', arrays s', argv s', argc s', main_lookup s') =
     (mem s, arrays s, argv s, argc s, main_lookup s)"
  "HANDLE_NUMERIC_FLAGS lookup iconv store_int s i ivf flag flag_only = Inr (s', i', ivf') \<Longrightarrow>
     (mem s', arrays s', argv s', argc s', main_lookup s') =
     (mem s, arrays s, argv s, argc s, main_lookup s)"
  "HANDLE_NUMERIC_FLAGS lookup sconv store_str s i ivf flag flag_only = Inr (s', i', ivf') \<Longrightarrow>
     (mem s', arrays s', argv s', argc s', main_lookup s') =
     (mem s, arrays s, argv s, argc s, main_lookup s)"
  "HANDLE_NUMERIC_FLAGS_AS_IS lookup fconv store_float s i ivf flag flag_only = Inr (s', i', ivf') \<Longrightarrow>
     (mem s', arrays s', argv s', argc s', main_lookup s') =
     (mem s, arrays s, argv s, argc s, main_lookup s)"
  "HANDLE_NUMERIC_FLAGS_AS_IS lookup iconv store_int s i ivf flag flag_only = Inr (s', i', ivf') \<Longrightarrow>
     (mem s', arrays s', argv s', argc s', main_lookup s') =
     (mem s, arrays s, argv s, argc s, main_lookup s)"
  "HANDLE_NUMERIC_FLAGS_AS_IS lookup sconv store_str s i ivf flag flag_only = Inr (s', i', ivf') \<Longrightarrow>
     (mem s', arrays s', argv s', argc s', main_lookup s') =
     (mem s, arrays s, argv s, argc s, main_lookup s)"
  by (erule numeric_frame [rotated], erule store_frame)+

lemma new_flags_result:
  "new_flags cs (nf, al, m) =
     (nf @ [length m ..< length m + length cs], al @ [length m ..< length m + length cs],
      m @ map (\<lambda>c. [CHR ''-'', c, NUL]) cs)"
proof (induction cs arbitrary: nf al m)
  case Nil
  show ?case by simp
next
  case (Cons c cs)
  have "[length m ..< length m + Suc (length cs)] =
          length m # [Suc (length m) ..< Suc (length m) + length cs]"
    by (subst upt_rec) simp
  then show ?case by (simp add: Cons.IH)
qed

text \<open>What the combination-flag block changes.\<close>

lemma expand_cluster_result:
  assumes "expand_cluster s i flag = Inr s'"
  obtains a interior m' where
    "argv s = Some a" "a < length (arrays s)" "argc s \<le> length (arrays s ! a)"
    "i < argc s + length interior"
    "strcpy (mem s @ map (\<lambda>c. [CHR ''-'', c, NUL]) interior)
       ((take (argc s) (arrays s ! a) @
           [length (mem s) ..< length (mem s) + length interior]) ! i)
       [CHR ''-'', last flag] = Inr m'"
    "s' = s\<lparr>allocs := allocs s @ [length (mem s) ..< length (mem s) + length interior],
            mem := m',
            arrays := arrays s @ [take (argc s) (arrays s ! a) @
                        [length (mem s) ..< length (mem s) + length interior]],
            argc := argc s + length interior, argv := Some (length (arrays s))\<rparr>"
proof -
  from assms have ne: "flag \<noteq> []"
    by (auto simp: expand_cluster_def)
  from assms ne obtain interior where
    it: "substr flag 1 (str_size flag - 2) = Inr interior"
    by (cases "substr flag 1 (str_size flag - 2)") (auto simp: expand_cluster_def Let_def)
  from assms ne it obtain copied where co: "memcpy_argv s = Inr copied"
    by (cases "memcpy_argv s") (auto simp: expand_cluster_def Let_def)
  from co obtain a where a: "argv s = Some a" "a < length (arrays s)"
    "argc s \<le> length (arrays s ! a)" "copied = take (argc s) (arrays s ! a)"
    by (auto simp: memcpy_argv_def split: option.splits if_splits)
  let ?nf = "take (argc s) (arrays s ! a) @ [length (mem s) ..< length (mem s) + length interior]"
  let ?m = "mem s @ map (\<lambda>c. [CHR ''-'', c, NUL]) interior"
  from assms ne it co a have lt: "i < length ?nf"
    by (auto simp: expand_cluster_def Let_def new_flags_result split: if_splits)
  from assms ne it co a lt obtain m' where
    cp: "strcpy ?m (?nf ! i) [CHR ''-'', last flag] = Inr m'"
    by (cases "strcpy ?m (?nf ! i) [CHR ''-'', last flag]")
       (auto simp: expand_cluster_def Let_def new_flags_result)
  from assms ne it co a lt cp have
    "s' = s\<lparr>allocs := allocs s @ [length (mem s) ..< length (mem s) + length interior],
            mem := m', arrays := arrays s @ [?nf],
            argc := argc s + length interior, argv := Some (length (arrays s))\<rparr>"
    by (auto simp: expand_cluster_def Let_def new_flags_result)
  with a lt cp that show thesis by simp
qed

lemma expand_cluster_writes:
  assumes "expand_cluster s i flag = Inr s'"
  shows "main_lookup s' = main_lookup s \<and> argc s \<le> argc s' \<and>
         (\<exists>ys. arrays s' = arrays s @ ys) \<and> length (mem s) \<le> length (mem s') \<and>
         (\<forall>p < length (mem s). mem s' ! p = mem s ! p \<or>
            (i < argc s \<and> argv_ptr s i = Inr p \<and> 3 \<le> length (mem s ! p) \<and>
             mem s' ! p = [CHR ''-'', last flag, NUL] @ drop 3 (mem s ! p))) \<and>
         (\<forall>k < argc s'. \<forall>p < length (mem s). argv_ptr s' k = Inr p \<longrightarrow>
            k < argc s \<and> argv_ptr s k = Inr p)"
proof -
  from assms obtain a interior m' where
    a: "argv s = Some a" "a < length (arrays s)" "argc s \<le> length (arrays s ! a)"
    and lt: "i < argc s + length interior"
    and cp: "strcpy (mem s @ map (\<lambda>c. [CHR ''-'', c, NUL]) interior)
       ((take (argc s) (arrays s ! a) @
           [length (mem s) ..< length (mem s) + length interior]) ! i)
       [CHR ''-'', last flag] = Inr m'"
    and s': "s' = s\<lparr>allocs := allocs s @ [length (mem s) ..< length (mem s) + length interior],
            mem := m',
            arrays := arrays s @ [take (argc s) (arrays s ! a) @
                        [length (mem s) ..< length (mem s) + length interior]],
            argc := argc s + length interior, argv := Some (length (arrays s))\<rparr>"
    by (rule expand_cluster_result)
  let ?nf = "take (argc s) (arrays s ! a) @ [length (mem s) ..< length (mem s) + length interior]"
  let ?m = "mem s @ map (\<lambda>c. [CHR ''-'', c, NUL]) interior"
  have nf_old: "?nf ! k = arrays s ! a ! k" if "k < argc s" for k
    using that a by (simp add: nth_append)
  have nf_new: "length (mem s) \<le> ?nf ! k" if "argc s \<le> k" "k < argc s + length interior" for k
    using that a by (simp add: nth_append)
  have ptr: "argv_ptr s k = Inr (arrays s ! a ! k)" if "k < argc s" for k
    using that a by (simp add: argv_ptr_def)
  from cp have m': "m' = ?m[?nf ! i := [CHR ''-'', last flag] @ [NUL] @ drop 3 (?m ! (?nf ! i))]"
    and len: "3 \<le> length (?m ! (?nf ! i))"
    by (auto simp: strcpy_def numeral_3_eq_3 split: if_splits)
  have buf: "mem s' ! p = mem s ! p \<or>
            (i < argc s \<and> argv_ptr s i = Inr p \<and> 3 \<le> length (mem s ! p) \<and>
             mem s' ! p = [CHR ''-'', last flag, NUL] @ drop 3 (mem s ! p))"
    if p: "p < length (mem s)" for p
  proof (cases "?nf ! i = p")
    case False
    then show ?thesis using p by (simp add: s' m' nth_append)
  next
    case True
    have i: "i < argc s"
    proof (rule ccontr)
      assume "\<not> i < argc s"
      with nf_new [of i] lt True p show False by simp
    qed
    with True nf_old [of i] ptr [of i] have "argv_ptr s i = Inr p" by simp
    moreover from True p len have "3 \<le> length (mem s ! p)" by (simp add: nth_append)
    moreover from True p have "mem s' ! p = [CHR ''-'', last flag, NUL] @ drop 3 (mem s ! p)"
      by (simp add: s' m' nth_append)
    ultimately show ?thesis using i by simp
  qed
  have pos: "k < argc s \<and> argv_ptr s k = Inr p"
    if k: "k < argc s'" and p: "p < length (mem s)" and q: "argv_ptr s' k = Inr p" for k p
  proof -
    from k have k': "k < argc s + length interior" by (simp add: s')
    from q k' a have eq: "?nf ! k = p"
      by (simp add: argv_ptr_def s')
    have "k < argc s"
    proof (rule ccontr)
      assume "\<not> k < argc s"
      with nf_new [of k] k' eq p show False by simp
    qed
    with eq nf_old [of k] ptr [of k] show ?thesis by simp
  qed
  have "length (mem s) \<le> length (mem s')" by (simp add: s' m')
  moreover have "main_lookup s' = main_lookup s \<and> argc s \<le> argc s' \<and>
      (\<exists>ys. arrays s' = arrays s @ ys)" by (simp add: s')
  ultimately show ?thesis using buf pos by blast
qed

subsection \<open>What an iteration writes\<close>

lemma cluster_branch_nonempty: "cluster_branch s flag \<Longrightarrow> flag \<noteq> []"
  by (auto simp: cluster_branch_def substr_def split: sum.splits)

lemma cluster_branch_lookup:
  "main_lookup s = main_lookup t \<Longrightarrow> cluster_branch s flag = cluster_branch t flag"
  unfolding cluster_branch_def by (erule subst) (rule refl)

lemma c_string_no_NUL: "c_string s p = Inr flag \<Longrightarrow> NUL \<notin> set flag"
  by (auto simp: c_string_def split: if_splits dest: set_takeWhileD)

lemma c_string_same_buffer:
  "p < length (mem t) \<Longrightarrow> p < length (mem s) \<Longrightarrow> mem s ! p = mem t ! p \<Longrightarrow>
     c_string s p = c_string t p"
  by (simp add: c_string_def)

lemma c_string_rewritten:
  assumes "c_string s p = Inr flag" "mem s ! p = [CHR ''-'', c, NUL] @ rest" "c \<noteq> NUL"
  shows "flag = [CHR ''-'', c]"
  using assms by (auto simp: c_string_def NUL_def split: if_splits)

lemma flag_not_found_writes:
  assumes "flag_not_found s i ivf flag = Inr (s', i', ivf')"
    and "substr flag 0 (str_find (CHR ''='') flag) = Inr flag_only"
    and "map_find flag_only (main_lookup s) = None"
  shows "(mem s', arrays s', argv s', argc s', main_lookup s') =
           (mem s, arrays s, argv s, argc s, main_lookup s) \<or>
         (cluster_branch s flag \<and> expand_cluster s i flag = Inr s' \<and> i' = i \<and> ivf' = ivf)"
proof -
  from assms(1) obtain e where e: "map_begin (main_lookup s) = Inr e"
    by (cases "map_begin (main_lookup s)") (auto simp: flag_not_found_def)
  have two: "substr flag 0 2 = Inr (take 2 flag)"
    by (simp add: substr_def)
  show ?thesis
  proof (cases "str_at0 (fst e) = str_at0 flag")
    case False
    with assms(1) e show ?thesis by (auto simp: flag_not_found_def)
  next
    case True
    show ?thesis
    proof (cases "map_find (take 2 flag) (main_lookup s) = None")
      case None: True
      with assms(1) e \<open>str_at0 (fst e) = str_at0 flag\<close> two show ?thesis
        by (auto simp: flag_not_found_def)
    next
      case False
      with assms(1) e True two have
        "bind_err (expand_cluster s i flag) (\<lambda>s'. Inr (s', i, ivf)) = Inr (s', i', ivf')"
        by (simp add: flag_not_found_def)
      then have "expand_cluster s i flag = Inr s' \<and> i' = i \<and> ivf' = ivf"
        by (cases "expand_cluster s i flag") auto
      moreover from assms(2,3) e True two False have "cluster_branch s flag"
        by (simp add: cluster_branch_def)
      ultimately show ?thesis by simp
    qed
  qed
qed

lemma step_writes:
  assumes "step = step_STRICT stod \<or> step = step_AS_IS stod"
    and "step s i ivf = Inr (s', i', ivf')"
  shows "(mem s', arrays s', argv s', argc s', main_lookup s') =
           (mem s, arrays s, argv s, argc s, main_lookup s) \<or>
         (\<exists>flag. argv_string s i = Inr flag \<and> cluster_branch s flag \<and>
                 expand_cluster s i flag = Inr s' \<and> i' = i \<and> ivf' = ivf)"
proof -
  from assms obtain flag where f: "argv_string s i = Inr flag"
    by (cases "argv_string s i") (auto simp: step_STRICT_def step_AS_IS_def)
  define flag_only where "flag_only = take (unat (str_find (CHR ''='') flag)) flag"
  have fo: "substr flag 0 (str_find (CHR ''='') flag) = Inr flag_only"
    by (simp add: substr_def flag_only_def)
  show ?thesis
  proof (cases "map_find flag_only (main_lookup s)")
    case None
    with assms f fo have "flag_not_found s i ivf flag = Inr (s', i', ivf')"
      by (auto simp: step_STRICT_def step_AS_IS_def)
    from flag_not_found_writes [OF this fo None] f show ?thesis by blast
  next
    case (Some ty)
    have "(mem s', arrays s', argv s', argc s', main_lookup s') =
           (mem s, arrays s, argv s, argc s, main_lookup s)"
    proof (cases ty)
      case BOOL_T
      with Some assms f fo have
        "bool_STRICT s i ivf flag flag_only = Inr (s', i', ivf') \<or>
         bool_AS_IS s i ivf flag flag_only = Inr (s', i', ivf')"
        by (auto simp: step_STRICT_def step_AS_IS_def)
      then show ?thesis by (elim disjE) (erule bool_frame)+
    next
      case FLOAT_T
      with Some assms f fo have
        "HANDLE_NUMERIC_FLAGS (float_lookup s) stod store_float s i ivf flag flag_only
           = Inr (s', i', ivf') \<or>
         HANDLE_NUMERIC_FLAGS_AS_IS (float_lookup s) stod store_float s i ivf flag flag_only
           = Inr (s', i', ivf')"
        by (auto simp: step_STRICT_def step_AS_IS_def)
      then show ?thesis by (elim disjE) (erule numeric_frames)+
    next
      case INT_T
      with Some assms f fo have
        "HANDLE_NUMERIC_FLAGS (int_lookup s) stoi store_int s i ivf flag flag_only
           = Inr (s', i', ivf') \<or>
         HANDLE_NUMERIC_FLAGS_AS_IS (int_lookup s) stoi store_int s i ivf flag flag_only
           = Inr (s', i', ivf')"
        by (auto simp: step_STRICT_def step_AS_IS_def)
      then show ?thesis by (elim disjE) (erule numeric_frames)+
    next
      case STR_T
      with Some assms f fo have
        "HANDLE_NUMERIC_FLAGS (str_lookup s) Inr store_str s i ivf flag flag_only
           = Inr (s', i', ivf') \<or>
         HANDLE_NUMERIC_FLAGS_AS_IS (str_lookup s) Inr store_str s i ivf flag flag_only
           = Inr (s', i', ivf')"
        by (auto simp: step_STRICT_def step_AS_IS_def)
      then show ?thesis by (elim disjE) (erule numeric_frames)+
    qed
    then show ?thesis by simp
  qed
qed

text \<open>One iteration and the buffers that existed before it.\<close>

lemma step_buffers:
  assumes "step = step_STRICT stod \<or> step = step_AS_IS stod"
    and "step s i ivf = Inr (s', i', ivf')"
    and "p < length (mem s)"
  shows "mem s' ! p = mem s ! p \<or>
         (\<exists>flag. i < argc s \<and> argv_ptr s i = Inr p \<and> c_string s p = Inr flag \<and>
                 cluster_branch s flag \<and> i' = i \<and> ivf' = ivf \<and>
                 3 \<le> length (mem s ! p) \<and>
                 mem s' ! p = [CHR ''-'', last flag, NUL] @ drop 3 (mem s ! p))"
proof -
  from step_writes [OF assms(1,2)] show ?thesis
  proof
    assume "(mem s', arrays s', argv s', argc s', main_lookup s') =
           (mem s, arrays s, argv s, argc s, main_lookup s)"
    then show ?thesis by simp
  next
    assume "\<exists>flag. argv_string s i = Inr flag \<and> cluster_branch s flag \<and>
                 expand_cluster s i flag = Inr s' \<and> i' = i \<and> ivf' = ivf"
    then obtain flag where f: "argv_string s i = Inr flag" "cluster_branch s flag"
      "expand_cluster s i flag = Inr s'" "i' = i" "ivf' = ivf" by blast
    from expand_cluster_writes [OF f(3)] assms(3) have
      "mem s' ! p = mem s ! p \<or>
            (i < argc s \<and> argv_ptr s i = Inr p \<and> 3 \<le> length (mem s ! p) \<and>
             mem s' ! p = [CHR ''-'', last flag, NUL] @ drop 3 (mem s ! p))"
      by blast
    then show ?thesis
    proof
      assume "mem s' ! p = mem s ! p"
      then show ?thesis ..
    next
      assume w: "i < argc s \<and> argv_ptr s i = Inr p \<and> 3 \<le> length (mem s ! p) \<and>
             mem s' ! p = [CHR ''-'', last flag, NUL] @ drop 3 (mem s ! p)"
      with f(1) have "c_string s p = Inr flag"
        by (simp add: argv_string_def)
      with w f show ?thesis by blast
    qed
  qed
qed

subsection \<open>What a pass writes\<close>

lemma argv_ptr_same:
  "argv s' = argv s \<Longrightarrow> arrays s' = arrays s \<Longrightarrow> argv_ptr s' k = argv_ptr s k"
  by (auto simp: argv_ptr_def split: option.splits)

text \<open>The whole loop and the buffers that existed before it.\<close>

lemma while_loop_writes:
  fixes s0 :: "'f GetOpt"
  assumes st: "step = step_STRICT stod \<or> step = step_AS_IS stod"
    and run: "while_loop step fuel s0 i0 ivf0 = Some (r, s1)"
  shows "(\<exists>ys. arrays s1 = arrays s0 @ ys) \<and>
         (\<forall>p < length (mem s0). mem s1 ! p = mem s0 ! p \<or>
            (\<exists>flag k. k < argc s0 \<and> argv_ptr s0 k = Inr p \<and> c_string s0 p = Inr flag \<and>
               cluster_branch s0 flag \<and> 3 \<le> length (mem s0 ! p) \<and>
               mem s1 ! p = [CHR ''-'', last flag, NUL] @ drop 3 (mem s0 ! p)))"
proof -
  define W where "W = (\<lambda>p b. \<exists>flag k. k < argc s0 \<and> argv_ptr s0 k = Inr p \<and>
      c_string s0 p = Inr flag \<and> cluster_branch s0 flag \<and> 3 \<le> length (mem s0 ! p) \<and>
      b = [CHR ''-'', last flag, NUL] @ drop 3 (mem s0 ! p))"
  define Inv :: "'f GetOpt \<Rightarrow> bool" where "Inv = (\<lambda>s. main_lookup s = main_lookup s0 \<and>
      (\<exists>ys. arrays s = arrays s0 @ ys) \<and> length (mem s0) \<le> length (mem s) \<and>
      (\<forall>p < length (mem s0). mem s ! p = mem s0 ! p \<or> W p (mem s ! p)) \<and>
      (\<forall>k < argc s. \<forall>p < length (mem s0). argv_ptr s k = Inr p \<longrightarrow>
          k < argc s0 \<and> argv_ptr s0 k = Inr p))"
  have init: "Inv s0"
    by (simp add: Inv_def)
  have pres: "Inv s'" if inv: "Inv s" and stp: "step s i ivf = Inr (s', i', ivf')"
    for s i ivf s' i' ivf'
  proof -
    from inv have I1: "main_lookup s = main_lookup s0"
      and I2: "\<exists>ys. arrays s = arrays s0 @ ys"
      and I3: "length (mem s0) \<le> length (mem s)"
      and I4: "\<And>p. p < length (mem s0) \<Longrightarrow> mem s ! p = mem s0 ! p \<or> W p (mem s ! p)"
      and I5: "\<And>k p. k < argc s \<Longrightarrow> p < length (mem s0) \<Longrightarrow> argv_ptr s k = Inr p \<Longrightarrow>
                 k < argc s0 \<and> argv_ptr s0 k = Inr p"
      by (simp_all add: Inv_def)
    from step_writes [OF st stp] show ?thesis
    proof
      assume same: "(mem s', arrays s', argv s', argc s', main_lookup s') =
           (mem s, arrays s, argv s, argc s, main_lookup s)"
      then have eqs: "mem s' = mem s" "arrays s' = arrays s" "argc s' = argc s"
        "main_lookup s' = main_lookup s" and "argv s' = argv s"
        by simp_all
      then have "argv_ptr s' = argv_ptr s"
        by (intro ext) (rule argv_ptr_same)
      from inv show ?thesis
        unfolding Inv_def eqs \<open>argv_ptr s' = argv_ptr s\<close> .
    next
      assume "\<exists>flag. argv_string s i = Inr flag \<and> cluster_branch s flag \<and>
                 expand_cluster s i flag = Inr s' \<and> i' = i \<and> ivf' = ivf"
      then obtain flag where f: "argv_string s i = Inr flag" and cb: "cluster_branch s flag"
        and ex: "expand_cluster s i flag = Inr s'" by blast
      from expand_cluster_writes [OF ex] have
        E1: "main_lookup s' = main_lookup s"
        and E3: "\<exists>ys. arrays s' = arrays s @ ys"
        and E4: "length (mem s) \<le> length (mem s')"
        and E5: "\<And>p. p < length (mem s) \<Longrightarrow> mem s' ! p = mem s ! p \<or>
            (i < argc s \<and> argv_ptr s i = Inr p \<and> 3 \<le> length (mem s ! p) \<and>
             mem s' ! p = [CHR ''-'', last flag, NUL] @ drop 3 (mem s ! p))"
        and E6: "\<And>k p. k < argc s' \<Longrightarrow> p < length (mem s) \<Longrightarrow> argv_ptr s' k = Inr p \<Longrightarrow>
            k < argc s \<and> argv_ptr s k = Inr p"
        by blast+
      have J4: "mem s' ! p = mem s0 ! p \<or> W p (mem s' ! p)" if p: "p < length (mem s0)" for p
      proof -
        from p I3 have ps: "p < length (mem s)" by simp
        from E5 [OF ps] show ?thesis
        proof
          assume "mem s' ! p = mem s ! p"
          with I4 [OF p] show ?thesis by simp
        next
          assume w: "i < argc s \<and> argv_ptr s i = Inr p \<and> 3 \<le> length (mem s ! p) \<and>
             mem s' ! p = [CHR ''-'', last flag, NUL] @ drop 3 (mem s ! p)"
          with f have cs: "c_string s p = Inr flag"
            by (simp add: argv_string_def)
          from w I5 [of i p] p have k: "i < argc s0" "argv_ptr s0 i = Inr p" by simp_all
          from I4 [OF p] show ?thesis
          proof
            assume same: "mem s ! p = mem s0 ! p"
            with cs p ps have "c_string s0 p = Inr flag"
              using c_string_same_buffer [of p s0 s] by simp
            moreover from cb I1 have "cluster_branch s0 flag"
              using cluster_branch_lookup [of s s0 flag] by simp
            moreover from w same have "3 \<le> length (mem s0 ! p)"
              "mem s' ! p = [CHR ''-'', last flag, NUL] @ drop 3 (mem s0 ! p)"
              by simp_all
            ultimately have "W p (mem s' ! p)"
              using k unfolding W_def by blast
            then show ?thesis ..
          next
            assume "W p (mem s ! p)"
            then obtain flag0 k0 where w0: "k0 < argc s0" "argv_ptr s0 k0 = Inr p"
              "c_string s0 p = Inr flag0" "cluster_branch s0 flag0" "3 \<le> length (mem s0 ! p)"
              "mem s ! p = [CHR ''-'', last flag0, NUL] @ drop 3 (mem s0 ! p)"
              unfolding W_def by blast
            from w0(4) have "flag0 \<noteq> []" by (rule cluster_branch_nonempty)
            then have "last flag0 \<in> set flag0" by (rule last_in_set)
            with c_string_no_NUL [OF w0(3)] have "last flag0 \<noteq> NUL" by metis
            from c_string_rewritten [OF cs w0(6) this] have "last flag = last flag0" by simp
            with w w0(6) have "mem s' ! p = [CHR ''-'', last flag0, NUL] @ drop 3 (mem s0 ! p)"
              by simp
            with w0 have "W p (mem s' ! p)" unfolding W_def by blast
            then show ?thesis ..
          qed
        qed
      qed
      have J5: "k < argc s0 \<and> argv_ptr s0 k = Inr p"
        if "k < argc s'" "p < length (mem s0)" "argv_ptr s' k = Inr p" for k p
      proof -
        from that I3 E6 [of k p] have "k < argc s \<and> argv_ptr s k = Inr p" by simp
        with that(2) I5 [of k p] show ?thesis by simp
      qed
      from I2 E3 have J2: "\<exists>ys. arrays s' = arrays s0 @ ys" by auto
      from E1 I1 have J1: "main_lookup s' = main_lookup s0" by simp
      from I3 E4 have J3: "length (mem s0) \<le> length (mem s')" by simp
      show ?thesis
        unfolding Inv_def using J1 J2 J3 J4 J5 by (intro conjI allI impI) blast+
    qed
  qed
  have loop: "Inv s'" if "while_loop step n s i ivf = Some (r, s')" "Inv s" for n s i ivf s'
    using that
  proof (induction n arbitrary: s i ivf)
    case 0
    then show ?case by (auto split: if_splits)
  next
    case (Suc n)
    show ?case
    proof (cases "i < argc s")
      case False
      with Suc.prems show ?thesis by auto
    next
      case True
      show ?thesis
      proof (cases "step s i ivf")
        case (Inl e)
        with True Suc.prems show ?thesis by auto
      next
        case (Inr x)
        obtain t j ivf1 where x: "x = (t, j, ivf1)" by (cases x) auto
        from Inr x True Suc.prems have "while_loop step n t j ivf1 = Some (r, s')"
          by simp
        moreover from Suc.prems(2) Inr x have "Inv t" by (auto intro: pres)
        ultimately show ?thesis by (rule Suc.IH)
      qed
    qed
  qed
  from loop [OF run init] have
    "\<exists>ys. arrays s1 = arrays s0 @ ys"
    "\<forall>p < length (mem s0). mem s1 ! p = mem s0 ! p \<or> W p (mem s1 ! p)"
    by (simp_all add: Inv_def)
  then show ?thesis
    unfolding W_def by - (intro conjI; assumption)
qed

text \<open>
  Claim C5, as amended. For a pass of either dialect that returns normally, on any fuel:
  \<^verbatim>\<open>_argv\<close> is the pointer it was before the pass, and every pointer array that
  existed before the pass, the caller's among them, holds the pointers it held. A character
  buffer that existed before the pass is changed only if it is the token at a position of
  the caller's vector and the string it held passes the tests that lead to the
  combination-flag block; it then holds \<^verbatim>\<open>-\<close>, that string's own last character and
  the terminating null, followed by the bytes it had from the fourth on. Every other
  buffer, so every token that is not expanded as a cluster, is as it was. The last part
  is the same for one iteration, of any state: the only buffer it can change is the token
  at its index, when it expands it.
\<close>

theorem C5_pointers_kept_token_rewritten:
  assumes "readArgs stod fuel behaviour s = Some (Inr invalid_flags, s')"
  shows "argv s' = argv s \<and>
         (\<forall>a < length (arrays s). arrays s' ! a = arrays s ! a) \<and>
         (\<forall>p < length (mem s). mem s' ! p = mem s ! p \<or>
            (\<exists>flag k. k < argc s \<and> argv_ptr s k = Inr p \<and> c_string s p = Inr flag \<and>
               cluster_branch s flag \<and> 3 \<le> length (mem s ! p) \<and>
               mem s' ! p = [CHR ''-'', last flag, NUL] @ drop 3 (mem s ! p))) \<and>
         (\<forall>t i ivf t' i' ivf'.
            (case behaviour of STRICT \<Rightarrow> step_STRICT stod | AS_IS \<Rightarrow> step_AS_IS stod) t i ivf
              = Inr (t', i', ivf') \<longrightarrow>
            (\<forall>p < length (mem t). mem t' ! p = mem t ! p \<or>
               (\<exists>flag. i < argc t \<and> argv_ptr t i = Inr p \<and> c_string t p = Inr flag \<and>
                  cluster_branch t flag \<and> i' = i \<and> ivf' = ivf \<and>
                  3 \<le> length (mem t ! p) \<and>
                  mem t' ! p = [CHR ''-'', last flag, NUL] @ drop 3 (mem t ! p))))"
proof -
  define step where
    "step = (case behaviour of STRICT \<Rightarrow> step_STRICT stod | AS_IS \<Rightarrow> step_AS_IS stod)"
  have st: "step = step_STRICT stod \<or> step = step_AS_IS stod"
    by (cases behaviour) (simp_all add: step_def)
  have ra: "readArgs stod fuel behaviour s = internal_readArgs step fuel s"
    by (cases behaviour)
       (simp_all add: step_def readArgs_def internal_readArgs_STRICT_def
          internal_readArgs_AS_IS_def internal_readArgs_def)
  from assms ra have nn: "argv s \<noteq> None"
    by (auto simp: internal_readArgs_def split: if_splits)
  from assms ra nn obtain s1 where
    loop: "while_loop step fuel s (if from_sys s then 1 else 0) [] = Some (Inr invalid_flags, s1)"
    and s': "s' = (if argv s1 \<noteq> argv s then s1\<lparr>argv := argv s\<rparr> else s1)\<lparr>allocs := []\<rparr>"
    by (auto simp: internal_readArgs_def Let_def split: option.splits sum.splits prod.splits)
  from while_loop_writes [OF st loop] obtain ys where
    a: "arrays s1 = arrays s @ ys"
    and m: "\<forall>p < length (mem s). mem s1 ! p = mem s ! p \<or>
            (\<exists>flag k. k < argc s \<and> argv_ptr s k = Inr p \<and> c_string s p = Inr flag \<and>
               cluster_branch s flag \<and> 3 \<le> length (mem s ! p) \<and>
               mem s1 ! p = [CHR ''-'', last flag, NUL] @ drop 3 (mem s ! p))"
    by blast
  have c1: "argv s' = argv s" by (simp add: s')
  have c2: "\<forall>a < length (arrays s). arrays s' ! a = arrays s ! a"
    by (simp add: s' a nth_append)
  have "mem s' = mem s1" by (simp add: s')
  with m have c3: "\<forall>p < length (mem s). mem s' ! p = mem s ! p \<or>
            (\<exists>flag k. k < argc s \<and> argv_ptr s k = Inr p \<and> c_string s p = Inr flag \<and>
               cluster_branch s flag \<and> 3 \<le> length (mem s ! p) \<and>
               mem s' ! p = [CHR ''-'', last flag, NUL] @ drop 3 (mem s ! p))"
    by simp
  have c4: "\<forall>t i ivf t' i' ivf'. step t i ivf = Inr (t', i', ivf') \<longrightarrow>
            (\<forall>p < length (mem t). mem t' ! p = mem t ! p \<or>
               (\<exists>flag. i < argc t \<and> argv_ptr t i = Inr p \<and> c_string t p = Inr flag \<and>
                  cluster_branch t flag \<and> i' = i \<and> ivf' = ivf \<and>
                  3 \<le> length (mem t ! p) \<and>
                  mem t' ! p = [CHR ''-'', last flag, NUL] @ drop 3 (mem t ! p)))"
    by (intro allI impI) (rule step_buffers [OF st])
  show ?thesis
    using c1 c2 c3 c4 [unfolded step_def] by - (intro conjI; assumption)
qed

text \<open>
  Claim C5 as stated fails: after the STRICT pass over \<^verbatim>\<open>["-abc"]\<close> with
  \<^verbatim>\<open>-a\<close>, \<^verbatim>\<open>-b\<close>, \<^verbatim>\<open>-c\<close> registered, the caller's first token reads
  \<^verbatim>\<open>-c\<close>. \<^verbatim>\<open>memcpy\<close> copied the pointers, and \<^verbatim>\<open>strcpy(newFlags[i], ...)\<close>
  wrote through the shared one.
\<close>

theorem C5_caller_token_overwritten:
  "argv_string (cluster_state :: unit GetOpt) 0 = Inr ''-abc'' \<and>
   readArgs stod_unused 4 STRICT cluster_state =
     Some (Inr [], cluster_state\<lparr>
            mem := [[CHR ''-'', CHR ''c'', NUL, CHR ''c'', NUL], ''-a'' @ [NUL], ''-b'' @ [NUL]],
            arrays := [[0], [0, 1, 2]], argc := 3, bool_cells := [True, True, True]\<rparr>) \<and>
   argv_string ((cluster_state :: unit GetOpt)\<lparr>
            mem := [[CHR ''-'', CHR ''c'', NUL, CHR ''c'', NUL], ''-a'' @ [NUL], ''-b'' @ [NUL]],
            arrays := [[0], [0, 1, 2]], argc := 3, bool_cells := [True, True, True]\<rparr>) 0 = Inr ''-c''"
  by (simp add: four_Suc cluster_run(1)) (simp add: cluster_state_def memory_defs NUL_def)

text \<open>
  The amended claim C5 at the AS_IS pass over \<^verbatim>\<open>["-abc"]\<close>: the pass returns, the
  token at position 0 passes the tests of a cluster, and its buffer holds \<^verbatim>\<open>-\<close>, its
  last character \<^verbatim>\<open>c\<close>, a null and its former fourth and fifth bytes.
\<close>

theorem C5_pointers_kept_token_rewritten_witness:
  "readArgs stod_unused 4 AS_IS cluster_state =
     Some (Inr [], cluster_state\<lparr>
            mem := [[CHR ''-'', CHR ''c'', NUL, CHR ''c'', NUL], ''-a'' @ [NUL], ''-b'' @ [NUL]],
            arrays := [[0], [0, 1, 2]], argc := 3, bool_cells := [True, True, True]\<rparr>) \<and>
   step_AS_IS stod_unused cluster_state 0 [] =
     Inr (cluster_state\<lparr>allocs := [1, 2],
            mem := [[CHR ''-'', CHR ''c'', NUL, CHR ''c'', NUL], ''-a'' @ [NUL], ''-b'' @ [NUL]],
            arrays := [[0], [0, 1, 2]], argc := 3, argv := Some 1\<rparr>, 0, []) \<and>
   argv ((cluster_state :: unit GetOpt)\<lparr>
            mem := [[CHR ''-'', CHR ''c'', NUL, CHR ''c'', NUL], ''-a'' @ [NUL], ''-b'' @ [NUL]],
            arrays := [[0], [0, 1, 2]], argc := 3, bool_cells := [True, True, True]\<rparr>)
     = argv (cluster_state :: unit GetOpt) \<and>
   argv (cluster_state :: unit GetOpt) = Some 0 \<and>
   arrays (cluster_state :: unit GetOpt) ! 0 = [0] \<and>
   argc (cluster_state :: unit GetOpt) = 1 \<and>
   argv_ptr (cluster_state :: unit GetOpt) 0 = Inr 0 \<and>
   c_string (cluster_state :: unit GetOpt) 0 = Inr ''-abc'' \<and>
   cluster_branch (cluster_state :: unit GetOpt) ''-abc'' \<and>
   [CHR ''-'', CHR ''c'', NUL, CHR ''c'', NUL] =
     [CHR ''-'', last ''-abc'', NUL] @ drop 3 (mem (cluster_state :: unit GetOpt) ! 0)"
proof -
  have run: "readArgs stod_unused 4 AS_IS cluster_state =
     Some (Inr [], cluster_state\<lparr>
            mem := [[CHR ''-'', CHR ''c'', NUL, CHR ''c'', NUL], ''-a'' @ [NUL], ''-b'' @ [NUL]],
            arrays := [[0], [0, 1, 2]], argc := 3, bool_cells := [True, True, True]\<rparr>)"
    by (simp add: four_Suc cluster_run(2))
  have facts:
    "argv (cluster_state :: unit GetOpt) = Some 0"
    "arrays (cluster_state :: unit GetOpt) ! 0 = [0]"
    "argc (cluster_state :: unit GetOpt) = 1"
    "argv_ptr (cluster_state :: unit GetOpt) 0 = Inr 0"
    "c_string (cluster_state :: unit GetOpt) 0 = Inr ''-abc''"
    "cluster_branch (cluster_state :: unit GetOpt) ''-abc''"
    "[CHR ''-'', CHR ''c'', NUL, CHR ''c'', NUL] =
        [CHR ''-'', last ''-abc'', NUL] @ drop 3 (mem (cluster_state :: unit GetOpt) ! 0)"
    by (simp_all add: cluster_state_def cluster_branch_def string_defs memory_defs)
  from C5_pointers_kept_token_rewritten [OF run] have
    "argv ((cluster_state :: unit GetOpt)\<lparr>
            mem := [[CHR ''-'', CHR ''c'', NUL, CHR ''c'', NUL], ''-a'' @ [NUL], ''-b'' @ [NUL]],
            arrays := [[0], [0, 1, 2]], argc := 3, bool_cells := [True, True, True]\<rparr>)
     = argv (cluster_state :: unit GetOpt)"
    by (rule conjunct1)
  with run facts cluster_first_step(2) [of stod_unused]
  show ?thesis by - (intro conjI, assumption+)
qed

section \<open>A pass that does not return\<close>

text \<open>
  With \<^verbatim>\<open>-=\<close> registered, the token \<^verbatim>\<open>-=\<close> has the flag-only part \<^verbatim>\<open>-\<close>,
  which is not registered, while its first two characters are: it is expanded as a cluster
  with no interior character and rewritten to itself, and the loop comes back to it with
  the same index. No amount of fuel ends the pass.
\<close>

lemma equals_cluster_step:
  assumes "argc s = 1" "argv s = Some a" "a < length (arrays s)" "arrays s ! a = [0]"
    and "mem s = [''-='' @ [NUL]]" "main_lookup s = [(''-='', BOOL_T)]"
    and "step = step_STRICT stod \<or> step = step_AS_IS stod"
  shows "step s 0 ivf =
     Inr (s\<lparr>arrays := arrays s @ [[0]], argv := Some (length (arrays s))\<rparr>, 0, ivf)"
  using assms
  by (auto simp add: string_defs memory_defs parse_defs Let_def cong: bind_err_weak_cong)

lemma equals_cluster_loops:
  assumes "step = step_STRICT stod \<or> step = step_AS_IS stod"
  shows "argc s = 1 \<Longrightarrow> argv s = Some a \<Longrightarrow> a < length (arrays s) \<Longrightarrow> arrays s ! a = [0] \<Longrightarrow>
     mem s = [''-='' @ [NUL]] \<Longrightarrow> main_lookup s = [(''-='', BOOL_T)] \<Longrightarrow>
     while_loop step fuel s 0 ivf = None"
proof (induction fuel arbitrary: s a)
  case 0
  then show ?case by simp
next
  case (Suc fuel)
  let ?s = "s\<lparr>arrays := arrays s @ [[0]], argv := Some (length (arrays s))\<rparr>"
  have "step s 0 ivf = Inr (?s, 0, ivf)"
    using Suc.prems assms by (rule equals_cluster_step)
  moreover have "while_loop step fuel ?s 0 ivf = None"
    by (rule Suc.IH [of ?s "length (arrays s)"]) (simp_all add: Suc.prems)
  ultimately show ?case using Suc.prems by simp
qed

lemma readArgs_need_not_return:
  "readArgs stod fuel behaviour (caller_argv [''-=''] False (snd (flagBoolean ''-='' False new_GetOpt)))
     = None"
proof -
  let ?s = "caller_argv [''-=''] False (snd (flagBoolean ''-='' False new_GetOpt)) :: 'a GetOpt"
  have s: "argc ?s = 1" "argv ?s = Some 0" "0 < length (arrays ?s)" "arrays ?s ! 0 = [0]"
    "mem ?s = [''-='' @ [NUL]]" "main_lookup ?s = [(''-='', BOOL_T)]" "\<not> from_sys ?s"
    by (simp_all add: string_defs memory_defs upt_rec)
  have "while_loop (step_STRICT stod) fuel ?s 0 [] = None"
       "while_loop (step_AS_IS stod) fuel ?s 0 [] = None"
    using s by (auto intro: equals_cluster_loops)
  then show ?thesis
    using s by (cases behaviour)
      (simp_all add: readArgs_def internal_readArgs_STRICT_def internal_readArgs_AS_IS_def
         internal_readArgs_def)
qed

end
